theory Spec2Isabelle
  imports Main
begin

section \<open>Data model of the asset container\<close>

text \<open>
  Every scene entity carries a \<open>uniqueId\<close> handed out by the scene's counter. An object
  reference is represented by the \<open>uniqueId\<close> of the object it points to; \<open>null\<close> and
  \<open>undefined\<close> are \<open>None\<close>. The entities of the container are never written by
  \<open>instantiateModelsToScene\<close>, so they are values; the node clones are written after
  their creation (\<open>copy.skeleton = clone\<close>), so they live in a store \<open>nodes\<close> keyed by
  \<open>uniqueId\<close>.
\<close>

datatype error = TypeError

type_synonym ref = nat

record MorphTarget =
  mt_uniqueId :: nat
  mt_name :: string

record MorphTargetManager =
  targets :: "MorphTarget list"

definition numTargets :: "MorphTargetManager \<Rightarrow> nat" where
  "numTargets m = length (targets m)"

text \<open>\<open>getTarget(index)\<close> reads the array of targets; out of range it is \<open>undefined\<close>.\<close>

definition getTarget :: "MorphTargetManager \<Rightarrow> nat \<Rightarrow> MorphTarget option" where
  "getTarget m index = (if index < length (targets m) then Some (targets m ! index) else None)"

text \<open>
  The fields of a \<open>TransformNode\<close> or of a mesh that the pass reads or writes.
  \<open>isMesh\<close> is \<open>instanceof Mesh\<close>.
\<close>

record NodeFields =
  uniqueId :: nat
  parent :: "ref option"
  isMesh :: bool
  isAnInstance :: bool
  skeleton :: "ref option"
  morphTargetManager :: "MorphTargetManager option"

text \<open>A node of the container together with its child nodes (\<open>getChildTransformNodes(true)\<close>).\<close>

datatype TransformNode =
  TransformNode (node: NodeFields) (getChildTransformNodes: "TransformNode list")

record Bone =
  bone_name :: string
  linkedTransformNode :: "ref option"

record Skeleton =
  sk_uniqueId :: nat
  sk_name :: string
  overrideMesh :: "ref option"
  bones :: "Bone list"

text \<open>
  An animation group is an entity of the scene: its identifier, its name and its targeted
  animations (animation name, target).
\<close>

record AnimationGroup =
  ag_uniqueId :: nat
  ag_name :: string
  targetedAnimations :: "(string \<times> ref) list"

record AssetContainer =
  transformNodes :: "TransformNode list"
  meshes :: "TransformNode list"
  skeletons :: "Skeleton list"
  animationGroups :: "AnimationGroup list"

record InstantiatedEntries =
  rootNodes :: "ref list"
  ie_skeletons :: "Skeleton list"
  ie_animationGroups :: "AnimationGroup list"

text \<open>The part of the scene that the pass touches: the identifier counter and the nodes it creates.\<close>

record Scene =
  sceneUniqueIdCounter :: nat
  sceneNodes :: "nat \<rightharpoonup> NodeFields"

text \<open>
  The state of one call of \<open>instantiateModelsToScene\<close>: the scene, and the local variables
  \<open>convertionMap\<close>, \<open>storeMap\<close>, \<open>result\<close> and \<open>alreadySwapped\<close>.
\<close>

record pass =
  uniqueIdCounter :: nat
  nodes :: "nat \<rightharpoonup> NodeFields"
  convertionMap :: "nat \<rightharpoonup> nat"
  storeMap :: "nat \<rightharpoonup> ref"
  result :: InstantiatedEntries
  alreadySwapped :: "ref list"

section \<open>Cloning operations of the engine\<close>

text \<open>
  Modelled from the spec: \<open>MorphTargetManager.clone\<close> is not part of the sources. The
  clone holds one new target per target of the original, in the same order, each with an
  identifier taken from the scene's counter.
\<close>

definition MorphTargetManager_clone :: "MorphTargetManager \<Rightarrow> pass \<Rightarrow> MorphTargetManager \<times> pass" where
  "MorphTargetManager_clone m st =
     (let c = uniqueIdCounter st;
          n = length (targets m)
      in (\<lparr>targets = map (\<lambda>(t, i). t\<lparr>mt_uniqueId := i\<rparr>) (zip (targets m) [c..<c + n])\<rparr>,
          st\<lparr>uniqueIdCounter := c + n\<rparr>))"

text \<open>
  Modelled from the spec: the clone of one node made by the hierarchy clone
  (\<open>TransformNode.clone\<close>, \<open>Mesh.clone\<close>) is not part of the sources. The clone is a new
  scene object with a new identifier that shares the data of its source; it is parented
  under \<open>newParent\<close>, or where the source is when no new parent is given, so that the clone
  of a root is parentless.
\<close>

definition cloneNode :: "NodeFields \<Rightarrow> ref option \<Rightarrow> pass \<Rightarrow> NodeFields \<times> pass" where
  "cloneNode source newParent st =
     (let c = uniqueIdCounter st;
          clone = source\<lparr>uniqueId := c,
                         parent := (case newParent of None \<Rightarrow> parent source | Some p \<Rightarrow> Some p)\<rparr>
      in (clone, st\<lparr>uniqueIdCounter := c + 1, nodes := (nodes st)(c \<mapsto> clone)\<rparr>))"

text \<open>
  Modelled from the spec: \<open>instantiateHierarchy\<close> is not part of the sources. It clones the
  node, reports the pair (source, clone) to \<open>onNewNodeCreated\<close>, clones every child under
  the clone, and returns the clone.
\<close>

fun instantiateHierarchy ::
    "(NodeFields \<Rightarrow> NodeFields \<Rightarrow> pass \<Rightarrow> error + pass) \<Rightarrow> TransformNode \<Rightarrow> ref option \<Rightarrow> pass
       \<Rightarrow> error + (ref option \<times> pass)"
  and instantiateChildren ::
    "(NodeFields \<Rightarrow> NodeFields \<Rightarrow> pass \<Rightarrow> error + pass) \<Rightarrow> TransformNode list \<Rightarrow> ref \<Rightarrow> pass
       \<Rightarrow> error + pass"
where
  "instantiateHierarchy onNewNodeCreated (TransformNode source cs) newParent st =
     (case cloneNode source newParent st of
        (clone, st1) \<Rightarrow>
          (case onNewNodeCreated source clone st1 of
             Inl e \<Rightarrow> Inl e
           | Inr st2 \<Rightarrow>
               (case instantiateChildren onNewNodeCreated cs (uniqueId clone) st2 of
                  Inl e \<Rightarrow> Inl e
                | Inr st3 \<Rightarrow> Inr (Some (uniqueId clone), st3))))"
| "instantiateChildren onNewNodeCreated [] p st = Inr st"
| "instantiateChildren onNewNodeCreated (child # cs) p st =
     (case instantiateHierarchy onNewNodeCreated child (Some p) st of
        Inl e \<Rightarrow> Inl e
      | Inr (_, st1) \<Rightarrow> instantiateChildren onNewNodeCreated cs p st1)"

text \<open>
  Modelled from the spec: \<open>Skeleton.clone(name)\<close> is not part of the sources. The clone is a
  new skeleton with a new identifier and the given name; its bones are copies of the
  original's bones, linked to the same transform nodes.
\<close>

definition Skeleton_clone :: "Skeleton \<Rightarrow> string \<Rightarrow> pass \<Rightarrow> Skeleton \<times> pass" where
  "Skeleton_clone s newName st =
     (let c = uniqueIdCounter st
      in (s\<lparr>sk_uniqueId := c, sk_name := newName\<rparr>, st\<lparr>uniqueIdCounter := c + 1\<rparr>))"

text \<open>
  Modelled from the spec: \<open>AnimationGroup.clone(name, targetConverter)\<close> is not part of the
  sources. The clone is a new entity of the scene, with an identifier taken from the
  scene's counter; it has the given name and one targeted animation per targeted animation
  of the original, and the converter is called once per original target.
\<close>

definition AnimationGroup_clone ::
    "AnimationGroup \<Rightarrow> string \<Rightarrow> (ref \<Rightarrow> ref) \<Rightarrow> pass \<Rightarrow> AnimationGroup \<times> pass" where
  "AnimationGroup_clone g newName targetConverter st =
     (let c = uniqueIdCounter st
      in (\<lparr>ag_uniqueId = c, ag_name = newName,
           targetedAnimations = map (\<lambda>(a, t). (a, targetConverter t)) (targetedAnimations g)\<rparr>,
          st\<lparr>uniqueIdCounter := c + 1\<rparr>))"

section \<open>instantiateModelsToScene\<close>

text \<open>\<open>storeMap[convertionMap[id]]\<close>: a missing key reads \<open>undefined\<close> in both objects.\<close>

definition lookupClone :: "pass \<Rightarrow> nat \<Rightarrow> ref option" where
  "lookupClone st k = (case convertionMap st k of None \<Rightarrow> None | Some c \<Rightarrow> storeMap st c)"

text \<open>The loop over the target indices in \<open>onClone\<close>.\<close>

fun registerTargets :: "MorphTargetManager \<Rightarrow> MorphTargetManager \<Rightarrow> nat list \<Rightarrow> pass \<Rightarrow> error + pass" where
  "registerTargets oldManager newManager [] st = Inr st"
| "registerTargets oldManager newManager (index # rest) st =
     (case getTarget oldManager index of
        None \<Rightarrow> Inl TypeError
      | Some oldTarget \<Rightarrow>
          (case getTarget newManager index of
             None \<Rightarrow> Inl TypeError
           | Some newTarget \<Rightarrow>
               registerTargets oldManager newManager rest
                 (st\<lparr>convertionMap := (convertionMap st)(mt_uniqueId oldTarget \<mapsto> mt_uniqueId newTarget),
                     storeMap := (storeMap st)(mt_uniqueId newTarget \<mapsto> mt_uniqueId newTarget)\<rparr>)))"

text \<open>
  Assignment to a field of the scene node \<open>r\<close>. The clone store also holds morph targets;
  an assignment to a field of such an object changes nothing that the pass reads, and
  nothing of the state.
\<close>

definition updateNode :: "ref \<Rightarrow> (NodeFields \<Rightarrow> NodeFields) \<Rightarrow> pass \<Rightarrow> pass" where
  "updateNode r f st =
     (case nodes st r of None \<Rightarrow> st | Some n \<Rightarrow> st\<lparr>nodes := (nodes st)(r \<mapsto> f n)\<rparr>)"

definition onClone :: "NodeFields \<Rightarrow> NodeFields \<Rightarrow> pass \<Rightarrow> error + pass" where
  "onClone source clone st =
     (let st1 = st\<lparr>convertionMap := (convertionMap st)(uniqueId source \<mapsto> uniqueId clone),
                   storeMap := (storeMap st)(uniqueId clone \<mapsto> uniqueId clone)\<rparr>
      in if isMesh clone then
           (case morphTargetManager clone of
              None \<Rightarrow> Inr st1
            | Some _ \<Rightarrow>
                (case morphTargetManager source of
                   None \<Rightarrow> Inl TypeError
                 | Some oldMorphTargetManager \<Rightarrow>
                     (case MorphTargetManager_clone oldMorphTargetManager st1 of
                        (newManager, st2) \<Rightarrow>
                          registerTargets oldMorphTargetManager newManager
                            [0..<numTargets oldMorphTargetManager]
                            (updateNode (uniqueId clone)
                               (\<lambda>n. n\<lparr>morphTargetManager := Some newManager\<rparr>) st2))))
         else Inr st1)"

text \<open>
  The two \<open>forEach\<close> loops over \<open>transformNodes\<close> and over \<open>meshes\<close> have the same body:
  a parentless entry is instantiated with its hierarchy and the clone is pushed on
  \<open>result.rootNodes\<close>.
\<close>

fun instantiateRoots :: "TransformNode list \<Rightarrow> pass \<Rightarrow> error + pass" where
  "instantiateRoots [] st = Inr st"
| "instantiateRoots (n # ns) st =
     (if parent (node n) = None then
        (case instantiateHierarchy onClone n None st of
           Inl e \<Rightarrow> Inl e
         | Inr (newOne, st1) \<Rightarrow>
             (case newOne of
                None \<Rightarrow> instantiateRoots ns st1
              | Some r \<Rightarrow>
                  instantiateRoots ns
                    (st1\<lparr>result := (result st1)\<lparr>rootNodes := rootNodes (result st1) @ [r]\<rparr>\<rparr>)))
      else instantiateRoots ns st)"

text \<open>The rewrite of one bone link: \<open>if (bone._linkedTransformNode) ...\<close>.\<close>

definition relinkBone :: "pass \<Rightarrow> Bone \<Rightarrow> Bone" where
  "relinkBone st bone =
     (case linkedTransformNode bone of
        None \<Rightarrow> bone
      | Some n \<Rightarrow> bone\<lparr>linkedTransformNode := lookupClone st n\<rparr>)"

text \<open>
  The loop \<open>for (var m of this.meshes)\<close> inside the loop over the skeletons, for the
  skeleton \<open>s\<close> and its clone. \<open>copy\<close> is \<open>undefined\<close> when the mesh has no clone, and the
  assignment \<open>copy.skeleton = clone\<close> then throws.
\<close>

fun bindMeshes :: "Skeleton \<Rightarrow> TransformNode list \<Rightarrow> Skeleton \<Rightarrow> pass \<Rightarrow> error + (Skeleton \<times> pass)" where
  "bindMeshes s [] clone st = Inr (clone, st)"
| "bindMeshes s (m # ms) clone st =
     (if skeleton (node m) = Some (sk_uniqueId s) \<and> \<not> isAnInstance (node m) then
        (case lookupClone st (uniqueId (node m)) of
           None \<Rightarrow> Inl TypeError
         | Some copy \<Rightarrow>
             (let st1 = updateNode copy (\<lambda>n. n\<lparr>skeleton := Some (sk_uniqueId clone)\<rparr>) st
              in if sk_uniqueId clone \<in> set (alreadySwapped st1) then bindMeshes s ms clone st1
                 else bindMeshes s ms
                        (clone\<lparr>bones := map (relinkBone st1) (bones clone)\<rparr>)
                        (st1\<lparr>alreadySwapped := alreadySwapped st1 @ [sk_uniqueId clone]\<rparr>)))
      else bindMeshes s ms clone st)"

text \<open>The body of the loop over the skeletons.\<close>

definition cloneSkeleton :: "AssetContainer \<Rightarrow> Skeleton \<Rightarrow> pass \<Rightarrow> error + pass" where
  "cloneSkeleton c s st =
     (case Skeleton_clone s (''Clone of '' @ sk_name s) st of
        (clone, st1) \<Rightarrow>
          (let clone1 = (case overrideMesh s of
                           None \<Rightarrow> clone
                         | Some om \<Rightarrow> clone\<lparr>overrideMesh := lookupClone st1 om\<rparr>)
           in case bindMeshes s (meshes c) clone1 st1 of
                Inl e \<Rightarrow> Inl e
              | Inr (clone2, st2) \<Rightarrow>
                  Inr (st2\<lparr>result := (result st2)\<lparr>ie_skeletons := ie_skeletons (result st2) @ [clone2]\<rparr>\<rparr>)))"

fun cloneSkeletons :: "AssetContainer \<Rightarrow> Skeleton list \<Rightarrow> pass \<Rightarrow> error + pass" where
  "cloneSkeletons c [] st = Inr st"
| "cloneSkeletons c (s # ss) st =
     (case cloneSkeleton c s st of Inl e \<Rightarrow> Inl e | Inr st1 \<Rightarrow> cloneSkeletons c ss st1)"

text \<open>The converter handed to \<open>AnimationGroup.clone\<close>: \<open>newTarget || oldTarget\<close>.\<close>

definition targetConverter :: "pass \<Rightarrow> ref \<Rightarrow> ref" where
  "targetConverter st oldTarget =
     (case lookupClone st oldTarget of None \<Rightarrow> oldTarget | Some newTarget \<Rightarrow> newTarget)"

fun cloneAnimationGroups :: "AnimationGroup list \<Rightarrow> pass \<Rightarrow> pass" where
  "cloneAnimationGroups [] st = st"
| "cloneAnimationGroups (g # gs) st =
     (case AnimationGroup_clone g (ag_name g) (targetConverter st) st of
        (clone, st1) \<Rightarrow>
          cloneAnimationGroups gs
            (st1\<lparr>result := (result st1)\<lparr>ie_animationGroups :=
                    ie_animationGroups (result st1) @ [clone]\<rparr>\<rparr>))"

definition initialPass :: "Scene \<Rightarrow> pass" where
  "initialPass sc =
     \<lparr>uniqueIdCounter = sceneUniqueIdCounter sc, nodes = sceneNodes sc,
      convertionMap = Map.empty, storeMap = Map.empty,
      result = \<lparr>rootNodes = [], ie_skeletons = [], ie_animationGroups = []\<rparr>,
      alreadySwapped = []\<rparr>"

text \<open>The state after the two loops that instantiate the hierarchies.\<close>

definition instantiateAllRoots :: "AssetContainer \<Rightarrow> pass \<Rightarrow> error + pass" where
  "instantiateAllRoots c st =
     (case instantiateRoots (transformNodes c) st of
        Inl e \<Rightarrow> Inl e
      | Inr st1 \<Rightarrow> instantiateRoots (meshes c) st1)"

text \<open>
  \<open>instantiateModelsToScene\<close> returns the final state of the pass; the value the source
  returns is its field \<open>result\<close>, and \<open>Inl TypeError\<close> is the exception.
\<close>

definition instantiateModelsToScene :: "AssetContainer \<Rightarrow> Scene \<Rightarrow> error + pass" where
  "instantiateModelsToScene c sc =
     (case instantiateAllRoots c (initialPass sc) of
        Inl e \<Rightarrow> Inl e
      | Inr st2 \<Rightarrow>
          (case cloneSkeletons c (skeletons c) st2 of
             Inl e \<Rightarrow> Inl e
           | Inr st3 \<Rightarrow> Inr (cloneAnimationGroups (animationGroups c) st3)))"

section \<open>The entries of a container in the scene graph\<close>

text \<open>
  Modelled from the spec: \<open>getChildTransformNodes\<close>, which \<open>instantiateHierarchy\<close> follows
  to the descendants of a node, is not part of the sources. The scene graph is the list of
  its nodes, each holding a reference to its parent, and the children of a node are the
  nodes of the graph whose parent it is.
\<close>

definition getChildren :: "NodeFields list \<Rightarrow> NodeFields \<Rightarrow> NodeFields list" where
  "getChildren graph f = filter (\<lambda>g. parent g = Some (uniqueId f)) graph"

text \<open>
  The hierarchy that a walk from the node \<open>f\<close> meets: the node with the hierarchies of its
  children. The walk descends one level per unit of \<open>fuel\<close>; \<open>None\<close> is a walk that has not
  come to an end within the fuel.
\<close>

fun hierarchyOf :: "nat \<Rightarrow> NodeFields list \<Rightarrow> NodeFields \<Rightarrow> TransformNode option" where
  "hierarchyOf 0 graph f = None"
| "hierarchyOf (Suc fuel) graph f =
     map_option (TransformNode f) (those (map (hierarchyOf fuel graph) (getChildren graph f)))"



section \<open>Notions used to state the properties\<close>

subsection \<open>What a pass captures\<close>

text \<open>An entry of the container is a root when it has no parent: \<open>!o.parent\<close>.\<close>

definition isRoot :: "TransformNode \<Rightarrow> bool" where
  "isRoot n = (parent (node n) = None)"

text \<open>The nodes of a hierarchy, the root first.\<close>

fun hierarchyNodes :: "TransformNode \<Rightarrow> NodeFields list" where
  "hierarchyNodes (TransformNode f cs) = f # concat (map hierarchyNodes cs)"

text \<open>
  The morph targets that \<open>onClone\<close> registers for a node (those of the manager of a mesh),
  and the identifiers it enters in the translation table for the node.
\<close>

definition managedTargets :: "NodeFields \<Rightarrow> MorphTarget list" where
  "managedTargets f =
     (if isMesh f then (case morphTargetManager f of None \<Rightarrow> [] | Some m \<Rightarrow> targets m) else [])"

definition registeredIds :: "NodeFields \<Rightarrow> nat set" where
  "registeredIds f = insert (uniqueId f) (mt_uniqueId ` set (managedTargets f))"

text \<open>
  The number of objects the clone of a hierarchy creates (one per node, one per managed
  morph target), and the identifiers it enters in the translation table.
\<close>

definition hierarchySize :: "TransformNode \<Rightarrow> nat" where
  "hierarchySize n = sum_list (map (\<lambda>f. 1 + length (managedTargets f)) (hierarchyNodes n))"

definition hierarchyIds :: "TransformNode \<Rightarrow> nat set" where
  "hierarchyIds n = (\<Union>f\<in>set (hierarchyNodes n). registeredIds f)"

text \<open>
  The identifiers captured by a pass: those of the nodes, and of their managed morph
  targets, in the hierarchies of the parentless entries of \<open>transformNodes\<close> and \<open>meshes\<close>.
\<close>

definition capturedIds :: "AssetContainer \<Rightarrow> nat set" where
  "capturedIds c = (\<Union>n\<in>set (filter isRoot (transformNodes c @ meshes c)). hierarchyIds n)"

text \<open>The identifiers of the morph targets managed by a node of the container.\<close>

definition morphTargetIds :: "AssetContainer \<Rightarrow> nat set" where
  "morphTargetIds c =
     (\<Union>n\<in>set (transformNodes c @ meshes c). \<Union>f\<in>set (hierarchyNodes n). mt_uniqueId ` set (managedTargets f))"

text \<open>
  The identifiers of the root clones: the scene hands out consecutive identifiers, and the
  clone of a hierarchy takes \<open>hierarchySize\<close> of them, the first for the root.
\<close>

fun cloneIds :: "nat \<Rightarrow> TransformNode list \<Rightarrow> nat list" where
  "cloneIds i [] = []"
| "cloneIds i (n # ns) = i # cloneIds (i + hierarchySize n) ns"

text \<open>The scene node \<open>r\<close> is a parentless node of the kind of the entry \<open>n\<close>.\<close>

definition rootCloneOf :: "pass \<Rightarrow> ref \<Rightarrow> TransformNode \<Rightarrow> bool" where
  "rootCloneOf st r n =
     (\<exists>n'. nodes st r = Some n' \<and> uniqueId n' = r \<and> parent n' = None \<and>
           isMesh n' = isMesh (node n) \<and> isAnInstance n' = isAnInstance (node n))"




subsection \<open>The scene graph\<close>




subsection \<open>Invariants of the two tables and of the scene\<close>

text \<open>Every value of the translation table is a key of the clone store.\<close>

definition tablesOK :: "pass \<Rightarrow> bool" where
  "tablesOK st = (\<forall>k c. convertionMap st k = Some c \<longrightarrow> storeMap st c = Some c)"

text \<open>
  The values of the translation table are identifiers handed out by the scene, no two
  keys have the same value, and the value of a key that is not the identifier of a morph
  target in \<open>T\<close> is a node of the scene.
\<close>

definition tablesInv :: "nat set \<Rightarrow> pass \<Rightarrow> bool" where
  "tablesInv T st =
     ((\<forall>k x. convertionMap st k = Some x \<longrightarrow>
          x < uniqueIdCounter st \<and> (k \<in> T \<or> nodes st x \<noteq> None)) \<and>
      (\<forall>a b x. convertionMap st a = Some x \<longrightarrow> convertionMap st b = Some x \<longrightarrow> a = b))"

text \<open>From \<open>a\<close> to \<open>b\<close> the counter has not decreased and the nodes that existed are unchanged.\<close>

definition nodesBelow :: "pass \<Rightarrow> pass \<Rightarrow> bool" where
  "nodesBelow a b = (uniqueIdCounter a \<le> uniqueIdCounter b \<and> (\<forall>i<uniqueIdCounter a. nodes b i = nodes a i))"

subsection \<open>The loop over the skeletons\<close>

text \<open>The condition of the inner loop: \<open>m.skeleton === s && !m.isAnInstance\<close>.\<close>

definition boundTo :: "Skeleton \<Rightarrow> TransformNode \<Rightarrow> bool" where
  "boundTo s m = (skeleton (node m) = Some (sk_uniqueId s) \<and> \<not> isAnInstance (node m))"

definition hasBoundMesh :: "AssetContainer \<Rightarrow> Skeleton \<Rightarrow> bool" where
  "hasBoundMesh c s = (\<exists>m\<in>set (meshes c). boundTo s m)"

text \<open>The clones of the meshes \<open>ms\<close> that are bound to the skeleton \<open>s\<close>.\<close>

definition boundCopies :: "pass \<Rightarrow> Skeleton \<Rightarrow> TransformNode list \<Rightarrow> ref set" where
  "boundCopies st s ms = {copy. \<exists>m\<in>set ms. boundTo s m \<and> lookupClone st (uniqueId (node m)) = Some copy}"

text \<open>
  The only statement of the pass that can throw is \<open>copy.skeleton = clone\<close>, for a mesh
  that is bound to a skeleton of the container and has no clone. It does not throw when
  every such mesh belongs to the hierarchy of a parentless entry of the container.
\<close>

definition boundMeshesCaptured :: "AssetContainer \<Rightarrow> bool" where
  "boundMeshesCaptured c =
     (\<forall>s\<in>set (skeletons c). \<forall>m\<in>set (meshes c).
        skeleton (node m) = Some (sk_uniqueId s) \<and> \<not> isAnInstance (node m) \<longrightarrow>
        uniqueId (node m) \<in> capturedIds c)"

text \<open>
  What the body of the loop makes of the skeleton \<open>s\<close> when the scene hands out the
  identifier \<open>i\<close>, and what the whole loop pushes on \<open>result.skeletons\<close> and on
  \<open>alreadySwapped\<close>; the lemmas below prove that the loop computes exactly these.
\<close>

definition expectedSkeleton :: "AssetContainer \<Rightarrow> pass \<Rightarrow> Skeleton \<Rightarrow> nat \<Rightarrow> Skeleton" where
  "expectedSkeleton c st s i =
     s\<lparr>sk_uniqueId := i, sk_name := ''Clone of '' @ sk_name s,
       overrideMesh := (case overrideMesh s of None \<Rightarrow> None | Some om \<Rightarrow> lookupClone st om),
       bones := (if hasBoundMesh c s then map (relinkBone st) (bones s) else bones s)\<rparr>"

fun expectedSkeletons :: "AssetContainer \<Rightarrow> pass \<Rightarrow> nat \<Rightarrow> Skeleton list \<Rightarrow> Skeleton list" where
  "expectedSkeletons c st i [] = []"
| "expectedSkeletons c st i (s # ss) = expectedSkeleton c st s i # expectedSkeletons c st (Suc i) ss"

fun expectedSwapped :: "AssetContainer \<Rightarrow> nat \<Rightarrow> Skeleton list \<Rightarrow> ref list" where
  "expectedSwapped c i [] = []"
| "expectedSwapped c i (s # ss) = (if hasBoundMesh c s then [i] else []) @ expectedSwapped c (Suc i) ss"

subsection \<open>The loop over the animation groups\<close>

text \<open>What the loop pushes on \<open>result.animationGroups\<close> when the scene hands out \<open>i\<close> first.\<close>

fun expectedGroups :: "pass \<Rightarrow> nat \<Rightarrow> AnimationGroup list \<Rightarrow> AnimationGroup list" where
  "expectedGroups st i [] = []"
| "expectedGroups st i (g # gs) =
     \<lparr>ag_uniqueId = i, ag_name = ag_name g,
      targetedAnimations = map (\<lambda>(a, t). (a, targetConverter st t)) (targetedAnimations g)\<rparr>
       # expectedGroups st (Suc i) gs"

subsection \<open>Concrete containers\<close>

text \<open>
  A small container: a root transform node with two meshes under it, one of them with a
  morph-target manager, a skeleton bound to both meshes whose override mesh is the first
  mesh and whose bones are linked to the root, to a node outside the container and to no
  node, and an animation group with targets inside and outside the container.
\<close>

definition exampleManager :: MorphTargetManager where
  "exampleManager = \<lparr>targets = [\<lparr>mt_uniqueId = 20, mt_name = ''smile''\<rparr>, \<lparr>mt_uniqueId = 21, mt_name = ''frown''\<rparr>]\<rparr>"

definition exampleRoot :: TransformNode where
  "exampleRoot =
     TransformNode \<lparr>uniqueId = 1, parent = None, isMesh = False, isAnInstance = False,
                    skeleton = None, morphTargetManager = None\<rparr>
       [TransformNode \<lparr>uniqueId = 2, parent = Some 1, isMesh = True, isAnInstance = False,
                       skeleton = Some 10, morphTargetManager = Some exampleManager\<rparr> [],
        TransformNode \<lparr>uniqueId = 3, parent = Some 1, isMesh = True, isAnInstance = False,
                       skeleton = Some 10, morphTargetManager = None\<rparr> []]"

definition exampleSkeleton :: Skeleton where
  "exampleSkeleton =
     \<lparr>sk_uniqueId = 10, sk_name = ''rig'', overrideMesh = Some 2,
      bones = [\<lparr>bone_name = ''hip'', linkedTransformNode = Some 1\<rparr>,
               \<lparr>bone_name = ''hand'', linkedTransformNode = Some 99\<rparr>,
               \<lparr>bone_name = ''head'', linkedTransformNode = None\<rparr>]\<rparr>"

definition exampleContainer :: AssetContainer where
  "exampleContainer =
     \<lparr>transformNodes = [exampleRoot],
      meshes = getChildTransformNodes exampleRoot,
      skeletons = [exampleSkeleton],
      animationGroups = [\<lparr>ag_uniqueId = 30, ag_name = ''walk'', targetedAnimations = [(''position'', 2), (''rotation'', 99), (''influence'', 20)]\<rparr>]\<rparr>"

definition exampleScene :: Scene where
  "exampleScene = \<lparr>sceneUniqueIdCounter = 100, sceneNodes = Map.empty\<rparr>"



definition cycleGraph :: "NodeFields list" where
  "cycleGraph =
     [\<lparr>uniqueId = 7, parent = Some 8, isMesh = False, isAnInstance = False,
       skeleton = None, morphTargetManager = None\<rparr>,
      \<lparr>uniqueId = 8, parent = Some 7, isMesh = False, isAnInstance = False,
       skeleton = None, morphTargetManager = None\<rparr>]"

text \<open>A container with one skeleton and no mesh.\<close>

definition unboundContainer :: AssetContainer where
  "unboundContainer =
     \<lparr>transformNodes = [], meshes = [],
      skeletons = [\<lparr>sk_uniqueId = 10, sk_name = ''rig'', overrideMesh = None,
                    bones = [\<lparr>bone_name = ''hip'', linkedTransformNode = Some 1\<rparr>]\<rparr>],
      animationGroups = []\<rparr>"

text \<open>The two meshes of the example and their skeleton, without the root of the meshes.\<close>

definition orphanContainer :: AssetContainer where
  "orphanContainer =
     \<lparr>transformNodes = [], meshes = getChildTransformNodes exampleRoot,
      skeletons = [exampleSkeleton], animationGroups = []\<rparr>"

text \<open>
  A container whose first skeleton is bound to a mesh below no parentless entry of the
  container and whose second skeleton is bound to no mesh.
\<close>

definition twoSkeletonsContainer :: AssetContainer where
  "twoSkeletonsContainer =
     \<lparr>transformNodes = [],
      meshes = [TransformNode \<lparr>uniqueId = 2, parent = Some 1, isMesh = True, isAnInstance = False,
                                skeleton = Some 10, morphTargetManager = None\<rparr> []],
      skeletons = [\<lparr>sk_uniqueId = 10, sk_name = ''rig'', overrideMesh = None, bones = []\<rparr>,
                   \<lparr>sk_uniqueId = 11, sk_name = ''spare'', overrideMesh = None, bones = []\<rparr>],
      animationGroups = []\<rparr>"

text \<open>
  A container with two skeletons that declare an override mesh: the first a mesh that is
  listed in \<open>meshes\<close> and has its parent outside the container, the second a mesh that is
  not listed and is the child of a listed parentless transform node.
\<close>

definition overrideContainer :: AssetContainer where
  "overrideContainer =
     \<lparr>transformNodes =
        [TransformNode \<lparr>uniqueId = 1, parent = None, isMesh = False, isAnInstance = False,
                         skeleton = None, morphTargetManager = None\<rparr>
           [TransformNode \<lparr>uniqueId = 2, parent = Some 1, isMesh = True, isAnInstance = False,
                            skeleton = None, morphTargetManager = None\<rparr> []]],
      meshes = [TransformNode \<lparr>uniqueId = 7, parent = Some 50, isMesh = True, isAnInstance = False,
                                skeleton = None, morphTargetManager = None\<rparr> []],
      skeletons = [\<lparr>sk_uniqueId = 10, sk_name = ''rig'', overrideMesh = Some 7, bones = []\<rparr>,
                   \<lparr>sk_uniqueId = 11, sk_name = ''spare'', overrideMesh = Some 2, bones = []\<rparr>],
      animationGroups = []\<rparr>"

text \<open>A state in which the mesh 2 of the example has just been cloned as the node 100.\<close>

definition exampleMesh :: NodeFields where
  "exampleMesh = \<lparr>uniqueId = 2, parent = Some 1, isMesh = True, isAnInstance = False,
                   skeleton = Some 10, morphTargetManager = Some exampleManager\<rparr>"

definition exampleMeshClone :: NodeFields where
  "exampleMeshClone = exampleMesh\<lparr>uniqueId := 100, parent := None\<rparr>"

definition examplePass :: pass where
  "examplePass =
     \<lparr>uniqueIdCounter = 101, nodes = [100 \<mapsto> exampleMeshClone],
      convertionMap = Map.empty, storeMap = Map.empty,
      result = \<lparr>rootNodes = [], ie_skeletons = [], ie_animationGroups = []\<rparr>,
      alreadySwapped = []\<rparr>"

section \<open>The effect of the loops\<close>

subsection \<open>onClone and the loop over the morph targets\<close>

lemma registerTargets_frame:
  "registerTargets old new idxs st = Inr st' \<Longrightarrow>
     uniqueIdCounter st' = uniqueIdCounter st \<and> nodes st' = nodes st \<and>
     result st' = result st \<and> alreadySwapped st' = alreadySwapped st"
  by (induction idxs arbitrary: st) (auto split: option.splits)

lemma registerTargets_tablesOK:
  "registerTargets old new idxs st = Inr st' \<Longrightarrow> tablesOK st \<Longrightarrow> tablesOK st'"
proof (induction idxs arbitrary: st)
  case Nil
  then show ?case by simp
next
  case (Cons i idxs)
  from Cons.prems(1) obtain ot nt where
    g: "getTarget old i = Some ot" "getTarget new i = Some nt"
    and r: "registerTargets old new idxs
              (st\<lparr>convertionMap := (convertionMap st)(mt_uniqueId ot \<mapsto> mt_uniqueId nt),
                  storeMap := (storeMap st)(mt_uniqueId nt \<mapsto> mt_uniqueId nt)\<rparr>) = Inr st'"
    by (auto split: option.splits)
  have "tablesOK (st\<lparr>convertionMap := (convertionMap st)(mt_uniqueId ot \<mapsto> mt_uniqueId nt),
                  storeMap := (storeMap st)(mt_uniqueId nt \<mapsto> mt_uniqueId nt)\<rparr>)"
    using Cons.prems(2) by (auto simp: tablesOK_def)
  with Cons.IH r show ?case by blast
qed

lemma registerTargets_succeeds:
  "\<forall>i\<in>set idxs. i < length (targets old) \<and> i < length (targets new) \<Longrightarrow>
     \<exists>st'. registerTargets old new idxs st = Inr st'"
  by (induction idxs arbitrary: st) (auto simp: getTarget_def)

lemma MorphTargetManager_clone_length:
  "MorphTargetManager_clone m st = (m', st') \<Longrightarrow> length (targets m') = length (targets m)"
  by (auto simp: MorphTargetManager_clone_def Let_def)

lemma MorphTargetManager_clone_frame:
  "MorphTargetManager_clone m st = (m', st') \<Longrightarrow>
     uniqueIdCounter st' = uniqueIdCounter st + length (targets m) \<and> nodes st' = nodes st \<and>
     convertionMap st' = convertionMap st \<and> storeMap st' = storeMap st \<and>
     result st' = result st \<and> alreadySwapped st' = alreadySwapped st"
  by (auto simp: MorphTargetManager_clone_def Let_def)

lemma updateNode_frame:
  "uniqueIdCounter (updateNode r f st) = uniqueIdCounter st \<and>
   convertionMap (updateNode r f st) = convertionMap st \<and>
   storeMap (updateNode r f st) = storeMap st \<and>
   result (updateNode r f st) = result st \<and>
   alreadySwapped (updateNode r f st) = alreadySwapped st"
  by (simp add: updateNode_def split: option.splits)

lemma tablesOK_cong:
  "convertionMap st' = convertionMap st \<Longrightarrow> storeMap st' = storeMap st \<Longrightarrow> tablesOK st' = tablesOK st"
  by (simp add: tablesOK_def)

lemma onClone_frame:
  "onClone source clone st = Inr st' \<Longrightarrow>
     result st' = result st \<and> alreadySwapped st' = alreadySwapped st \<and>
     uniqueIdCounter st \<le> uniqueIdCounter st'"
  unfolding onClone_def Let_def
  by (auto split: if_splits option.splits prod.splits
           dest!: registerTargets_frame MorphTargetManager_clone_frame simp: updateNode_frame)

lemma onClone_tablesOK:
  assumes "onClone source clone st = Inr st'" "tablesOK st"
  shows "tablesOK st'"
proof -
  let ?st1 = "st\<lparr>convertionMap := (convertionMap st)(uniqueId source \<mapsto> uniqueId clone),
                   storeMap := (storeMap st)(uniqueId clone \<mapsto> uniqueId clone)\<rparr>"
  have ok1: "tablesOK ?st1" using assms(2) by (auto simp: tablesOK_def)
  show ?thesis
  proof (cases "isMesh clone \<and> morphTargetManager clone \<noteq> None")
    case False
    with assms(1) have "st' = ?st1"
      by (auto simp: onClone_def Let_def split: if_splits option.splits)
    with ok1 show ?thesis by simp
  next
    case True
    with assms(1) obtain old new st2 where
      c: "MorphTargetManager_clone old ?st1 = (new, st2)"
      and r: "registerTargets old new [0..<numTargets old]
                (updateNode (uniqueId clone) (\<lambda>n. n\<lparr>morphTargetManager := Some new\<rparr>) st2) = Inr st'"
      by (auto simp: onClone_def Let_def split: if_splits option.splits prod.splits)
    have "tablesOK (updateNode (uniqueId clone) (\<lambda>n. n\<lparr>morphTargetManager := Some new\<rparr>) st2)"
      using ok1 MorphTargetManager_clone_frame[OF c]
      by (simp add: tablesOK_def updateNode_frame)
    with r show ?thesis by (rule registerTargets_tablesOK)
  qed
qed

subsection \<open>The hierarchy clone\<close>

lemma cloneNode_fields:
  "cloneNode source newParent st = (clone, st1) \<Longrightarrow>
     uniqueId clone = uniqueIdCounter st \<and>
     parent clone = (case newParent of None \<Rightarrow> parent source | Some p \<Rightarrow> Some p) \<and>
     isMesh clone = isMesh source \<and> isAnInstance clone = isAnInstance source \<and>
     skeleton clone = skeleton source \<and> morphTargetManager clone = morphTargetManager source \<and>
     uniqueIdCounter st1 = uniqueIdCounter st + 1 \<and>
     nodes st1 = (nodes st)(uniqueIdCounter st \<mapsto> clone) \<and>
     convertionMap st1 = convertionMap st \<and> storeMap st1 = storeMap st \<and>
     result st1 = result st \<and> alreadySwapped st1 = alreadySwapped st"
  by (auto simp: cloneNode_def Let_def)

lemma onClone_after_cloneNode_succeeds:
  assumes "cloneNode source newParent st = (clone, st1)"
  shows "\<exists>st2. onClone source clone st1 = Inr st2"
proof -
  note f = cloneNode_fields[OF assms]
  show ?thesis
  proof (cases "isMesh clone")
    case False
    then show ?thesis by (simp add: onClone_def Let_def)
  next
    case True
    show ?thesis
    proof (cases "morphTargetManager source")
      case None
      with True f show ?thesis by (simp add: onClone_def Let_def)
    next
      case (Some old)
      let ?st1' = "st1\<lparr>convertionMap := (convertionMap st1)(uniqueId source \<mapsto> uniqueId clone),
                   storeMap := (storeMap st1)(uniqueId clone \<mapsto> uniqueId clone)\<rparr>"
      obtain new st2 where c: "MorphTargetManager_clone old ?st1' = (new, st2)"
        by (cases "MorphTargetManager_clone old ?st1'")
      have len: "length (targets new) = length (targets old)"
        using MorphTargetManager_clone_length[OF c] .
      have "\<exists>st'. registerTargets old new [0..<numTargets old]
               (updateNode (uniqueId clone) (\<lambda>n. n\<lparr>morphTargetManager := Some new\<rparr>) st2) = Inr st'"
        by (rule registerTargets_succeeds) (simp add: numTargets_def len)
      with True Some f c show ?thesis
        by (simp add: onClone_def Let_def)
    qed
  qed
qed

lemma hierarchy_succeeds:
  "\<exists>r st'. instantiateHierarchy onClone n np st = Inr (Some r, st')"
  "\<exists>st'. instantiateChildren onClone cs p st = Inr st'"
proof (induction onClone n np st and onClone cs p st
       rule: instantiateHierarchy_instantiateChildren.induct)
  case (1 source cs newParent st)
  obtain clone st1 where c: "cloneNode source newParent st = (clone, st1)"
    by (cases "cloneNode source newParent st")
  obtain st2 where o: "onClone source clone st1 = Inr st2"
    using onClone_after_cloneNode_succeeds[OF c] by blast
  from 1[OF c[symmetric] o] obtain st3 where
    "instantiateChildren onClone cs (uniqueId clone) st2 = Inr st3" by blast
  with c o show ?case by simp
next
  case (2 p st)
  show ?case by simp
next
  case (3 child cs p st)
  from 3(1) obtain r st1 where h: "instantiateHierarchy onClone child (Some p) st = Inr (Some r, st1)"
    by blast
  from 3(2)[OF h] obtain st2 where "instantiateChildren onClone cs p st1 = Inr st2" by blast
  with h show ?case by simp
qed

lemma hierarchy_rel:
  assumes rfl: "\<And>st. R st st"
    and trans: "\<And>a b c. R a b \<Longrightarrow> R b c \<Longrightarrow> R a c"
    and step: "\<And>src np st cl st1 st2. src \<in> S \<Longrightarrow> cloneNode src np st = (cl, st1) \<Longrightarrow>
                  onClone src cl st1 = Inr st2 \<Longrightarrow> R st st2"
  shows "instantiateHierarchy onClone n np st = Inr (r, st') \<Longrightarrow> set (hierarchyNodes n) \<subseteq> S \<Longrightarrow> R st st'"
    and "instantiateChildren onClone cs p st = Inr st' \<Longrightarrow>
           (\<Union>c\<in>set cs. set (hierarchyNodes c)) \<subseteq> S \<Longrightarrow> R st st'"
proof (induction onClone n np st and onClone cs p st arbitrary: r st' and st'
       rule: instantiateHierarchy_instantiateChildren.induct)
  case (1 source cs newParent st)
  obtain clone st1 where c: "cloneNode source newParent st = (clone, st1)"
    by (cases "cloneNode source newParent st")
  from 1(2) c obtain st2 where o: "onClone source clone st1 = Inr st2"
    and ch: "instantiateChildren onClone cs (uniqueId clone) st2 = Inr st'"
    by (auto split: sum.splits)
  have "source \<in> S" using 1(3) by simp
  then have r1: "R st st2" using c o by (rule step)
  have "(\<Union>c\<in>set cs. set (hierarchyNodes c)) \<subseteq> S" using 1(3) by auto
  with 1(1)[OF c[symmetric] o ch] have "R st2 st'" by blast
  with r1 show ?case by (rule trans)
next
  case (2 p st)
  then show ?case by (simp add: rfl)
next
  case (3 child cs p st)
  from 3(3) obtain r st1 where h: "instantiateHierarchy onClone child (Some p) st = Inr (r, st1)"
    and ch: "instantiateChildren onClone cs p st1 = Inr st'"
    by (auto split: sum.splits)
  have r1: "R st st1" using 3(1)[OF h] 3(4) by auto
  have "R st1 st'" using 3(2)[OF h refl ch] 3(4) by auto
  with r1 show ?case by (rule trans)
qed

subsection \<open>The loops over the parentless entries\<close>

lemma roots_rel:
  assumes rfl: "\<And>st. R st st"
    and trans: "\<And>a b c. R a b \<Longrightarrow> R b c \<Longrightarrow> R a c"
    and step: "\<And>src np st cl st1 st2. src \<in> S \<Longrightarrow> cloneNode src np st = (cl, st1) \<Longrightarrow>
                  onClone src cl st1 = Inr st2 \<Longrightarrow> R st st2"
    and push: "\<And>st r. R st (st\<lparr>result := (result st)\<lparr>rootNodes := rootNodes (result st) @ [r]\<rparr>\<rparr>)"
  shows "instantiateRoots ns st = Inr st' \<Longrightarrow> (\<Union>n\<in>set ns. set (hierarchyNodes n)) \<subseteq> S \<Longrightarrow> R st st'"
proof (induction ns arbitrary: st)
  case Nil
  then show ?case by (simp add: rfl)
next
  case (Cons n ns)
  show ?case
  proof (cases "parent (node n) = None")
    case False
    with Cons show ?thesis by simp
  next
    case True
    obtain r st1 where h: "instantiateHierarchy onClone n None st = Inr (Some r, st1)"
      using hierarchy_succeeds(1) by blast
    let ?st1 = "st1\<lparr>result := (result st1)\<lparr>rootNodes := rootNodes (result st1) @ [r]\<rparr>\<rparr>"
    from Cons.prems(1) True h have rest: "instantiateRoots ns ?st1 = Inr st'" by simp
    have "R st st1"
      using hierarchy_rel(1)[of R S, OF rfl trans step h] Cons.prems(2) by auto
    moreover have "R st1 ?st1" by (rule push)
    moreover have "R ?st1 st'" using Cons.IH[OF rest] Cons.prems(2) by auto
    ultimately show ?thesis by (blast intro: trans)
  qed
qed

lemma roots_succeeds: "\<exists>st'. instantiateRoots ns st = Inr st'"
proof (induction ns arbitrary: st)
  case Nil
  show ?case by simp
next
  case (Cons n ns)
  obtain r st1 where h: "instantiateHierarchy onClone n None st = Inr (Some r, st1)"
    using hierarchy_succeeds(1) by blast
  with Cons show ?case by simp
qed

lemma allRoots_rel:
  assumes rfl: "\<And>st. R st st"
    and trans: "\<And>a b c. R a b \<Longrightarrow> R b c \<Longrightarrow> R a c"
    and step: "\<And>src np st cl st1 st2. cloneNode src np st = (cl, st1) \<Longrightarrow>
                  onClone src cl st1 = Inr st2 \<Longrightarrow> R st st2"
    and push: "\<And>st r. R st (st\<lparr>result := (result st)\<lparr>rootNodes := rootNodes (result st) @ [r]\<rparr>\<rparr>)"
  shows "instantiateAllRoots c st = Inr st' \<Longrightarrow> R st st'"
proof -
  assume a: "instantiateAllRoots c st = Inr st'"
  then obtain st1 where 1: "instantiateRoots (transformNodes c) st = Inr st1"
    and 2: "instantiateRoots (meshes c) st1 = Inr st'"
    by (auto simp: instantiateAllRoots_def split: sum.splits)
  have "R st st1" by (rule roots_rel[of R UNIV, OF rfl trans step push 1]) auto
  moreover have "R st1 st'" by (rule roots_rel[of R UNIV, OF rfl trans step push 2]) auto
  ultimately show ?thesis by (rule trans)
qed

lemma allRoots_succeeds: "\<exists>st'. instantiateAllRoots c st = Inr st'"
  using roots_succeeds by (auto simp: instantiateAllRoots_def split: sum.splits) (metis sum.distinct(1) old.sum.inject(2))+

lemma allRoots_tablesOK:
  "instantiateAllRoots c st = Inr st' \<Longrightarrow> tablesOK st \<Longrightarrow> tablesOK st'"
proof -
  assume a: "instantiateAllRoots c st = Inr st'"
  have "tablesOK st \<longrightarrow> tablesOK st'"
  proof (rule allRoots_rel[where R = "\<lambda>a b. tablesOK a \<longrightarrow> tablesOK b", OF _ _ _ _ a])
    fix src np st cl st1 st2
    assume c: "cloneNode src np st = (cl, st1)" and o: "onClone src cl st1 = Inr st2"
    have "tablesOK st1 = tablesOK st"
      using cloneNode_fields[OF c] by (intro tablesOK_cong) simp_all
    with onClone_tablesOK[OF o] show "tablesOK st \<longrightarrow> tablesOK st2" by simp
  qed (simp_all add: tablesOK_def)
  then show "tablesOK st \<Longrightarrow> tablesOK st'" by simp
qed

lemma allRoots_frame:
  assumes a: "instantiateAllRoots c st = Inr st'"
  shows "alreadySwapped st' = alreadySwapped st \<and>
         ie_skeletons (result st') = ie_skeletons (result st) \<and>
         ie_animationGroups (result st') = ie_animationGroups (result st) \<and>
         uniqueIdCounter st \<le> uniqueIdCounter st'"
proof (rule allRoots_rel[where R = "\<lambda>a b. alreadySwapped b = alreadySwapped a \<and>
         ie_skeletons (result b) = ie_skeletons (result a) \<and>
         ie_animationGroups (result b) = ie_animationGroups (result a) \<and>
         uniqueIdCounter a \<le> uniqueIdCounter b", OF _ _ _ _ a])
  fix src np st cl st1 st2
  assume c: "cloneNode src np st = (cl, st1)" and o: "onClone src cl st1 = Inr st2"
  show "alreadySwapped st2 = alreadySwapped st \<and>
         ie_skeletons (result st2) = ie_skeletons (result st) \<and>
         ie_animationGroups (result st2) = ie_animationGroups (result st) \<and>
         uniqueIdCounter st \<le> uniqueIdCounter st2"
    using cloneNode_fields[OF c] onClone_frame[OF o] by simp
qed simp_all

subsection \<open>What the later loops leave unchanged\<close>

lemma bindMeshes_frame:
  "bindMeshes s ms clone st = Inr (clone', st') \<Longrightarrow>
     convertionMap st' = convertionMap st \<and> storeMap st' = storeMap st \<and>
     result st' = result st \<and> uniqueIdCounter st' = uniqueIdCounter st \<and>
     sk_uniqueId clone' = sk_uniqueId clone \<and> sk_name clone' = sk_name clone \<and>
     overrideMesh clone' = overrideMesh clone \<and> length (bones clone') = length (bones clone)"
proof (induction s ms clone st rule: bindMeshes.induct)
  case (1 s clone st)
  then show ?case by simp
next
  case (2 s m ms clone st)
  show ?case
  proof (cases "skeleton (node m) = Some (sk_uniqueId s) \<and> \<not> isAnInstance (node m)")
    case False
    with 2 show ?thesis by auto
  next
    case True
    from True "2.prems" obtain copy where l: "lookupClone st (uniqueId (node m)) = Some copy"
      by (auto split: option.splits)
    let ?st1 = "updateNode copy (\<lambda>n. n\<lparr>skeleton := Some (sk_uniqueId clone)\<rparr>) st"
    show ?thesis
    proof (cases "sk_uniqueId clone \<in> set (alreadySwapped ?st1)")
      case sw: True
      with True l "2.prems" have "bindMeshes s ms clone ?st1 = Inr (clone', st')"
        by (simp add: Let_def)
      from "2.IH"(1)[OF True l refl sw this] show ?thesis by (simp add: updateNode_frame)
    next
      case sw: False
      with True l "2.prems" have "bindMeshes s ms (clone\<lparr>bones := map (relinkBone ?st1) (bones clone)\<rparr>)
                        (?st1\<lparr>alreadySwapped := alreadySwapped ?st1 @ [sk_uniqueId clone]\<rparr>) = Inr (clone', st')"
        by (simp add: Let_def)
      from "2.IH"(2)[OF True l refl sw this] show ?thesis by (simp add: updateNode_frame)
    qed
  qed
qed

lemma cloneSkeleton_frame:
  assumes "cloneSkeleton c s st = Inr st'"
  shows "convertionMap st' = convertionMap st \<and> storeMap st' = storeMap st \<and>
     rootNodes (result st') = rootNodes (result st) \<and>
     ie_animationGroups (result st') = ie_animationGroups (result st) \<and>
     uniqueIdCounter st' = uniqueIdCounter st + 1"
proof -
  obtain clone st1 where c: "Skeleton_clone s (''Clone of '' @ sk_name s) st = (clone, st1)"
    by (cases "Skeleton_clone s (''Clone of '' @ sk_name s) st")
  then have f1: "convertionMap st1 = convertionMap st" "storeMap st1 = storeMap st" "result st1 = result st"
    "uniqueIdCounter st1 = uniqueIdCounter st + 1"
    by (auto simp: Skeleton_clone_def Let_def)
  from assms c obtain clone1 clone2 st2 where b: "bindMeshes s (meshes c) clone1 st1 = Inr (clone2, st2)"
    and e: "st' = st2\<lparr>result := (result st2)\<lparr>ie_skeletons := ie_skeletons (result st2) @ [clone2]\<rparr>\<rparr>"
    by (auto simp: cloneSkeleton_def Let_def split: sum.splits)
  from bindMeshes_frame[OF b] f1 e show ?thesis by simp
qed

lemma cloneSkeletons_frame:
  "cloneSkeletons c ss st = Inr st' \<Longrightarrow>
     convertionMap st' = convertionMap st \<and> storeMap st' = storeMap st \<and>
     rootNodes (result st') = rootNodes (result st) \<and>
     ie_animationGroups (result st') = ie_animationGroups (result st) \<and>
     uniqueIdCounter st' = uniqueIdCounter st + length ss"
proof (induction ss arbitrary: st)
  case Nil
  then show ?case by simp
next
  case (Cons s ss)
  from Cons.prems obtain st1 where 1: "cloneSkeleton c s st = Inr st1"
    and 2: "cloneSkeletons c ss st1 = Inr st'"
    by (auto split: sum.splits)
  from cloneSkeleton_frame[OF 1] Cons.IH[OF 2] show ?case by simp
qed

lemma targetConverter_cong:
  "convertionMap st' = convertionMap st \<Longrightarrow> storeMap st' = storeMap st \<Longrightarrow>
     targetConverter st' = targetConverter st"
  by (rule ext) (simp add: targetConverter_def lookupClone_def split: option.splits)

lemma expectedGroups_cong:
  assumes "convertionMap st' = convertionMap st" "storeMap st' = storeMap st"
  shows "expectedGroups st' i gs = expectedGroups st i gs"
  using targetConverter_cong[OF assms] by (induction gs arbitrary: i) simp_all



lemma cloneAnimationGroups_effect:
  "convertionMap (cloneAnimationGroups gs st) = convertionMap st \<and>
   storeMap (cloneAnimationGroups gs st) = storeMap st \<and>
   nodes (cloneAnimationGroups gs st) = nodes st \<and>
   uniqueIdCounter (cloneAnimationGroups gs st) = uniqueIdCounter st + length gs \<and>
   alreadySwapped (cloneAnimationGroups gs st) = alreadySwapped st \<and>
   rootNodes (result (cloneAnimationGroups gs st)) = rootNodes (result st) \<and>
   ie_skeletons (result (cloneAnimationGroups gs st)) = ie_skeletons (result st) \<and>
   ie_animationGroups (result (cloneAnimationGroups gs st)) =
     ie_animationGroups (result st) @ expectedGroups st (uniqueIdCounter st) gs"
proof (induction gs arbitrary: st)
  case Nil
  show ?case by simp
next
  case (Cons g gs)
  let ?cl = "\<lparr>ag_uniqueId = uniqueIdCounter st, ag_name = ag_name g,
             targetedAnimations = map (\<lambda>(a, t). (a, targetConverter st t)) (targetedAnimations g)\<rparr>"
  let ?st1 = "st\<lparr>uniqueIdCounter := uniqueIdCounter st + 1,
                 result := (result st)\<lparr>ie_animationGroups := ie_animationGroups (result st) @ [?cl]\<rparr>\<rparr>"
  have u: "cloneAnimationGroups (g # gs) st = cloneAnimationGroups gs ?st1"
    by (simp add: AnimationGroup_clone_def Let_def)
  have "expectedGroups ?st1 i gs = expectedGroups st i gs" for i
    by (rule expectedGroups_cong) simp_all
  with Cons.IH[of ?st1] show ?case unfolding u by simp
qed

subsection \<open>The phases of the pass\<close>

lemma pass_phases:
  assumes "instantiateModelsToScene c sc = Inr st"
  obtains st2 st3 where "instantiateAllRoots c (initialPass sc) = Inr st2"
    "cloneSkeletons c (skeletons c) st2 = Inr st3"
    "st = cloneAnimationGroups (animationGroups c) st3"
  using assms by (auto simp: instantiateModelsToScene_def split: sum.splits)


subsection \<open>The tables after the loop over the morph targets\<close>

lemma registerTargets_convertionMap:
  "registerTargets old new idxs st = Inr st' \<Longrightarrow>
     convertionMap st' k =
       (if k \<in> (\<lambda>i. mt_uniqueId (targets old ! i)) ` set idxs
        then Some (mt_uniqueId (targets new ! (last (filter (\<lambda>i. mt_uniqueId (targets old ! i) = k) idxs))))
        else convertionMap st k)"
proof (induction idxs arbitrary: st)
  case Nil
  then show ?case by simp
next
  case (Cons i idxs)
  from Cons.prems obtain
    g: "i < length (targets old)" "i < length (targets new)"
    and r: "registerTargets old new idxs
              (st\<lparr>convertionMap := (convertionMap st)(mt_uniqueId (targets old ! i) \<mapsto> mt_uniqueId (targets new ! i)),
                  storeMap := (storeMap st)(mt_uniqueId (targets new ! i) \<mapsto> mt_uniqueId (targets new ! i))\<rparr>) = Inr st'"
    by (auto simp: getTarget_def split: option.splits if_splits)
  show ?case
    using Cons.IH[OF r]
    by (auto simp: image_iff filter_empty_conv)
qed

lemma registerTargets_storeMap:
  "registerTargets old new idxs st = Inr st' \<Longrightarrow>
     storeMap st' k =
       (if k \<in> (\<lambda>i. mt_uniqueId (targets new ! i)) ` set idxs then Some k else storeMap st k)"
proof (induction idxs arbitrary: st)
  case Nil
  then show ?case by simp
next
  case (Cons i idxs)
  from Cons.prems obtain
    g: "i < length (targets old)" "i < length (targets new)"
    and r: "registerTargets old new idxs
              (st\<lparr>convertionMap := (convertionMap st)(mt_uniqueId (targets old ! i) \<mapsto> mt_uniqueId (targets new ! i)),
                  storeMap := (storeMap st)(mt_uniqueId (targets new ! i) \<mapsto> mt_uniqueId (targets new ! i))\<rparr>) = Inr st'"
    by (auto simp: getTarget_def split: option.splits if_splits)
  show ?case
    using Cons.IH[OF r] by auto
qed

lemma MorphTargetManager_clone_targets:
  assumes "MorphTargetManager_clone m st = (m', st')" "i < length (targets m)"
  shows "targets m' ! i = (targets m ! i)\<lparr>mt_uniqueId := uniqueIdCounter st + i\<rparr>"
  using assms by (auto simp: MorphTargetManager_clone_def Let_def)

lemma registerTargets_dom:
  assumes "registerTargets old new idxs st = Inr st'"
  shows "dom (convertionMap st') = dom (convertionMap st) \<union> (\<lambda>i. mt_uniqueId (targets old ! i)) ` set idxs"
  using registerTargets_convertionMap[OF assms] by (auto simp: dom_def split: if_splits)

lemma onClone_nodes:
  assumes "onClone source clone st = Inr st'"
  shows "\<forall>i. i \<noteq> uniqueId clone \<longrightarrow> nodes st' i = nodes st i"
    and "nodes st (uniqueId clone) = None \<Longrightarrow> nodes st' (uniqueId clone) = None"
    and "nodes st (uniqueId clone) = Some n \<Longrightarrow>
           \<exists>mm. nodes st' (uniqueId clone) = Some (n\<lparr>morphTargetManager := mm\<rparr>)"
proof -
  have "(\<forall>i. i \<noteq> uniqueId clone \<longrightarrow> nodes st' i = nodes st i) \<and>
        (nodes st (uniqueId clone) = None \<longrightarrow> nodes st' (uniqueId clone) = None) \<and>
        (\<forall>n. nodes st (uniqueId clone) = Some n \<longrightarrow>
           (\<exists>mm. nodes st' (uniqueId clone) = Some (n\<lparr>morphTargetManager := mm\<rparr>)))"
  proof (cases "isMesh clone \<and> morphTargetManager clone \<noteq> None")
    case False
    with assms have "nodes st' = nodes st"
      by (auto simp: onClone_def Let_def split: if_splits option.splits)
    moreover have "\<And>n::NodeFields. n = n\<lparr>morphTargetManager := morphTargetManager n\<rparr>" by simp
    ultimately show ?thesis by metis
  next
    case True
    let ?st1 = "st\<lparr>convertionMap := (convertionMap st)(uniqueId source \<mapsto> uniqueId clone),
                   storeMap := (storeMap st)(uniqueId clone \<mapsto> uniqueId clone)\<rparr>"
    from True assms obtain old new st2 where
      c: "MorphTargetManager_clone old ?st1 = (new, st2)"
      and r: "registerTargets old new [0..<numTargets old]
                (updateNode (uniqueId clone) (\<lambda>n. n\<lparr>morphTargetManager := Some new\<rparr>) st2) = Inr st'"
      by (auto simp: onClone_def Let_def split: if_splits option.splits prod.splits)
    have n2: "nodes st2 = nodes st" using MorphTargetManager_clone_frame[OF c] by simp
    have "nodes st' = nodes (updateNode (uniqueId clone) (\<lambda>n. n\<lparr>morphTargetManager := Some new\<rparr>) st2)"
      using registerTargets_frame[OF r] by simp
    then show ?thesis using n2 by (auto simp: updateNode_def split: option.splits)
  qed
  then show "\<forall>i. i \<noteq> uniqueId clone \<longrightarrow> nodes st' i = nodes st i"
    and "nodes st (uniqueId clone) = None \<Longrightarrow> nodes st' (uniqueId clone) = None"
    and "nodes st (uniqueId clone) = Some n \<Longrightarrow>
           \<exists>mm. nodes st' (uniqueId clone) = Some (n\<lparr>morphTargetManager := mm\<rparr>)"
    by blast+
qed

lemma onClone_counter_dom:
  assumes "onClone source clone st = Inr st'"
    and "isMesh clone = isMesh source" "morphTargetManager clone = morphTargetManager source"
  shows "uniqueIdCounter st' = uniqueIdCounter st + length (managedTargets source)"
    and "dom (convertionMap st') = dom (convertionMap st) \<union> registeredIds source"
proof -
  let ?st1 = "st\<lparr>convertionMap := (convertionMap st)(uniqueId source \<mapsto> uniqueId clone),
                   storeMap := (storeMap st)(uniqueId clone \<mapsto> uniqueId clone)\<rparr>"
  have "uniqueIdCounter st' = uniqueIdCounter st + length (managedTargets source) \<and>
        dom (convertionMap st') = dom (convertionMap st) \<union> registeredIds source"
  proof (cases "isMesh clone \<and> morphTargetManager clone \<noteq> None")
    case False
    with assms(1) have "st' = ?st1"
      by (auto simp: onClone_def Let_def split: if_splits option.splits)
    moreover from False assms(2,3) have "managedTargets source = []"
      by (auto simp: managedTargets_def split: option.splits)
    ultimately show ?thesis by (simp add: registeredIds_def)
  next
    case True
    from True assms obtain old new st2 where
      src: "morphTargetManager source = Some old"
      and c: "MorphTargetManager_clone old ?st1 = (new, st2)"
      and r: "registerTargets old new [0..<numTargets old]
                (updateNode (uniqueId clone) (\<lambda>n. n\<lparr>morphTargetManager := Some new\<rparr>) st2) = Inr st'"
      by (auto simp: onClone_def Let_def split: if_splits option.splits prod.splits)
    from True assms(2) src have mt: "managedTargets source = targets old"
      by (simp add: managedTargets_def)
    note f2 = MorphTargetManager_clone_frame[OF c]
    have cnt: "uniqueIdCounter st' = uniqueIdCounter st + length (targets old)"
      using registerTargets_frame[OF r] f2 by (simp add: updateNode_frame)
    have "(\<lambda>i. mt_uniqueId (targets old ! i)) ` set [0..<numTargets old] = mt_uniqueId ` set (targets old)"
    proof -
      have "(\<lambda>i. mt_uniqueId (targets old ! i)) ` set [0..<length (targets old)]
              = set (map (\<lambda>i. mt_uniqueId (targets old ! i)) [0..<length (targets old)])" by simp
      also have "map (\<lambda>i. mt_uniqueId (targets old ! i)) [0..<length (targets old)] = map mt_uniqueId (targets old)"
        by (rule nth_equalityI) simp_all
      finally show ?thesis by (simp add: numTargets_def)
    qed
    with registerTargets_dom[OF r] f2
    have "dom (convertionMap st') = insert (uniqueId source) (dom (convertionMap st)) \<union> mt_uniqueId ` set (targets old)"
      by (simp add: updateNode_frame)
    with cnt mt show ?thesis by (auto simp: registeredIds_def)
  qed
  then show "uniqueIdCounter st' = uniqueIdCounter st + length (managedTargets source)"
    and "dom (convertionMap st') = dom (convertionMap st) \<union> registeredIds source" by blast+
qed

subsection \<open>Identifiers taken and entered by a hierarchy clone\<close>

lemma hierarchySize_simps:
  "hierarchySize (TransformNode f cs) = 1 + length (managedTargets f) + sum_list (map hierarchySize cs)"
proof -
  have "sum_list (map (\<lambda>f. 1 + length (managedTargets f)) (concat (map hierarchyNodes cs)))
          = sum_list (map hierarchySize cs)"
    by (induction cs) (simp_all add: hierarchySize_def)
  then show ?thesis by (simp add: hierarchySize_def)
qed

lemma hierarchyIds_simps:
  "hierarchyIds (TransformNode f cs) = registeredIds f \<union> (\<Union>c\<in>set cs. hierarchyIds c)"
  by (auto simp: hierarchyIds_def)

lemma hierarchy_counter_dom:
  "instantiateHierarchy onClone n np st = Inr (r, st') \<Longrightarrow>
     r = Some (uniqueIdCounter st) \<and>
     uniqueIdCounter st' = uniqueIdCounter st + hierarchySize n \<and>
     dom (convertionMap st') = dom (convertionMap st) \<union> hierarchyIds n"
  "instantiateChildren onClone cs p st = Inr st' \<Longrightarrow>
     uniqueIdCounter st' = uniqueIdCounter st + sum_list (map hierarchySize cs) \<and>
     dom (convertionMap st') = dom (convertionMap st) \<union> (\<Union>c\<in>set cs. hierarchyIds c)"
proof (induction onClone n np st and onClone cs p st arbitrary: r st' and st'
       rule: instantiateHierarchy_instantiateChildren.induct)
  case (1 source cs newParent st)
  obtain clone st1 where c: "cloneNode source newParent st = (clone, st1)"
    by (cases "cloneNode source newParent st")
  from 1(2) c obtain st2 where o: "onClone source clone st1 = Inr st2"
    and ch: "instantiateChildren onClone cs (uniqueId clone) st2 = Inr st'"
    and r: "r = Some (uniqueId clone)"
    by (auto split: sum.splits)
  note f = cloneNode_fields[OF c]
  have o2: "uniqueIdCounter st2 = uniqueIdCounter st1 + length (managedTargets source)"
    "dom (convertionMap st2) = dom (convertionMap st1) \<union> registeredIds source"
    using onClone_counter_dom[OF o] f by simp_all
  from 1(1)[OF c[symmetric] o ch] o2 f r show ?case
    by (simp add: hierarchySize_simps hierarchyIds_simps Un_assoc)
next
  case (2 p st)
  then show ?case by simp
next
  case (3 child cs p st)
  from 3(3) obtain r st1 where h: "instantiateHierarchy onClone child (Some p) st = Inr (r, st1)"
    and ch: "instantiateChildren onClone cs p st1 = Inr st'"
    by (auto split: sum.splits)
  from 3(1)[OF h] 3(2)[OF h refl ch] show ?case by (simp add: Un_assoc)
qed

lemma nodesBelow_refl: "nodesBelow a a"
  by (simp add: nodesBelow_def)

lemma nodesBelow_trans: "nodesBelow a b \<Longrightarrow> nodesBelow b c \<Longrightarrow> nodesBelow a c"
  by (auto simp: nodesBelow_def)

lemma step_nodesBelow:
  assumes c: "cloneNode src np st = (cl, st1)" and o: "onClone src cl st1 = Inr st2"
  shows "nodesBelow st st2"
proof -
  note f = cloneNode_fields[OF c]
  have "uniqueIdCounter st \<le> uniqueIdCounter st2" using f onClone_frame[OF o] by simp
  moreover have "\<forall>i<uniqueIdCounter st. nodes st2 i = nodes st i"
    using onClone_nodes(1)[OF o] f by simp
  ultimately show ?thesis by (simp add: nodesBelow_def)
qed

lemma hierarchy_nodesBelow:
  "instantiateHierarchy onClone n np st = Inr (r, st') \<Longrightarrow> nodesBelow st st'"
  "instantiateChildren onClone cs p st = Inr st' \<Longrightarrow> nodesBelow st st'"
proof -
  show "instantiateHierarchy onClone n np st = Inr (r, st') \<Longrightarrow> nodesBelow st st'"
    by (rule hierarchy_rel(1)[where R = nodesBelow and S = UNIV])
       (auto intro: nodesBelow_refl nodesBelow_trans step_nodesBelow)
  show "instantiateChildren onClone cs p st = Inr st' \<Longrightarrow> nodesBelow st st'"
    by (rule hierarchy_rel(2)[where R = nodesBelow and S = UNIV])
       (auto intro: nodesBelow_refl nodesBelow_trans step_nodesBelow)
qed

lemma hierarchy_root_clone:
  assumes "instantiateHierarchy onClone n np st = Inr (r, st')"
  shows "r = Some (uniqueIdCounter st) \<and> uniqueIdCounter st < uniqueIdCounter st' \<and>
         (\<exists>n'. nodes st' (uniqueIdCounter st) = Some n' \<and> uniqueId n' = uniqueIdCounter st \<and>
               parent n' = (case np of None \<Rightarrow> parent (node n) | Some p \<Rightarrow> Some p) \<and>
               isMesh n' = isMesh (node n) \<and> isAnInstance n' = isAnInstance (node n) \<and>
               skeleton n' = skeleton (node n))"
proof -
  obtain source cs where n: "n = TransformNode source cs" by (cases n)
  obtain clone st1 where c: "cloneNode source np st = (clone, st1)"
    by (cases "cloneNode source np st")
  from assms n c obtain st2 where o: "onClone source clone st1 = Inr st2"
    and ch: "instantiateChildren onClone cs (uniqueId clone) st2 = Inr st'"
    and r: "r = Some (uniqueId clone)"
    by (auto split: sum.splits)
  note f = cloneNode_fields[OF c]
  have "nodes st1 (uniqueId clone) = Some clone" using f by simp
  from onClone_nodes(3)[OF o this] obtain mm where
    n2: "nodes st2 (uniqueIdCounter st) = Some (clone\<lparr>morphTargetManager := mm\<rparr>)"
    using f by auto
  have cnt2: "uniqueIdCounter st < uniqueIdCounter st2"
    using f onClone_frame[OF o] by simp
  from hierarchy_nodesBelow(2)[OF ch] cnt2
  have "nodes st' (uniqueIdCounter st) = nodes st2 (uniqueIdCounter st)"
    and "uniqueIdCounter st2 \<le> uniqueIdCounter st'"
    by (auto simp: nodesBelow_def)
  with n2 cnt2 f r n show ?thesis by (simp split: option.splits)
qed

subsection \<open>The inner loop over the meshes\<close>

lemma lookupClone_cong:
  "convertionMap st' = convertionMap st \<Longrightarrow> storeMap st' = storeMap st \<Longrightarrow>
     lookupClone st' = lookupClone st"
  by (rule ext) (simp add: lookupClone_def split: option.splits)

lemma relinkBone_cong:
  assumes "convertionMap st' = convertionMap st" "storeMap st' = storeMap st"
  shows "relinkBone st' = relinkBone st"
  by (rule ext) (simp add: relinkBone_def lookupClone_cong[OF assms] split: option.splits)

lemma boundCopies_cong:
  assumes "convertionMap st' = convertionMap st" "storeMap st' = storeMap st"
  shows "boundCopies st' s ms = boundCopies st s ms"
  by (simp add: boundCopies_def lookupClone_cong[OF assms])

lemma boundCopies_Cons:
  "boundCopies st s (m # ms) =
     (if boundTo s m then (case lookupClone st (uniqueId (node m)) of None \<Rightarrow> {} | Some c \<Rightarrow> {c}) else {})
       \<union> boundCopies st s ms"
  by (auto simp: boundCopies_def split: option.splits)

lemma updateNode_nodes:
  "nodes (updateNode r f st) x = (if x = r then map_option f (nodes st r) else nodes st x)"
  by (simp add: updateNode_def split: option.splits)

lemma bindMeshes_unbound:
  "\<not> boundTo s m \<Longrightarrow> bindMeshes s (m # ms) clone st = bindMeshes s ms clone st"
  by (auto simp: boundTo_def)

lemma bindMeshes_bound:
  assumes "boundTo s m" "lookupClone st (uniqueId (node m)) = Some copy"
  shows "bindMeshes s (m # ms) clone st =
     (if sk_uniqueId clone \<in> set (alreadySwapped st)
      then bindMeshes s ms clone (updateNode copy (\<lambda>n. n\<lparr>skeleton := Some (sk_uniqueId clone)\<rparr>) st)
      else bindMeshes s ms
             (clone\<lparr>bones := map (relinkBone st) (bones clone)\<rparr>)
             ((updateNode copy (\<lambda>n. n\<lparr>skeleton := Some (sk_uniqueId clone)\<rparr>) st)
                \<lparr>alreadySwapped := alreadySwapped st @ [sk_uniqueId clone]\<rparr>))"
proof -
  let ?st1 = "updateNode copy (\<lambda>n. n\<lparr>skeleton := Some (sk_uniqueId clone)\<rparr>) st"
  have t1: "convertionMap ?st1 = convertionMap st" "storeMap ?st1 = storeMap st"
    "alreadySwapped ?st1 = alreadySwapped st"
    by (simp_all add: updateNode_frame)
  have rl: "relinkBone ?st1 = relinkBone st"
    by (rule relinkBone_cong) (simp_all add: t1)
  from assms show ?thesis
    by (simp add: boundTo_def Let_def t1 rl)
qed

lemma bindMeshes_unresolved:
  assumes "boundTo s m" "lookupClone st (uniqueId (node m)) = None"
  shows "bindMeshes s (m # ms) clone st = Inl TypeError"
  using assms by (simp add: boundTo_def)

declare bindMeshes.simps(2) [simp del]

lemma setSkeleton_nodes_twice:
  fixes F :: "NodeFields \<Rightarrow> NodeFields"
  assumes idem: "\<And>n. F (F n) = F n"
    and a: "\<forall>x. n1 x = (if x = copy then map_option F (n0 copy) else n0 x)"
    and b: "\<forall>x. n2 x = (if x \<in> B then map_option F (n1 x) else n1 x)"
  shows "\<forall>x. n2 x = (if x \<in> insert copy B then map_option F (n0 x) else n0 x)"
proof
  fix x
  show "n2 x = (if x \<in> insert copy B then map_option F (n0 x) else n0 x)"
  proof (cases "x = copy")
    case True
    show ?thesis
    proof (cases "n0 copy")
      case None
      with True a b show ?thesis by simp
    next
      case (Some v)
      with True a b idem show ?thesis by simp
    qed
  next
    case False
    with a b show ?thesis by simp
  qed
qed

lemma bindMeshes_nodes:
  "bindMeshes s ms clone st = Inr (clone', st') \<Longrightarrow>
     \<forall>x. nodes st' x =
        (if x \<in> boundCopies st s ms
         then map_option (\<lambda>n. n\<lparr>skeleton := Some (sk_uniqueId clone)\<rparr>) (nodes st x)
         else nodes st x)"
proof (induction ms arbitrary: clone st)
  case Nil
  then show ?case by (simp add: boundCopies_def)
next
  case (Cons m ms)
  show ?case
  proof (cases "boundTo s m")
    case False
    with Cons.prems have "bindMeshes s ms clone st = Inr (clone', st')"
      by (simp add: bindMeshes_unbound)
    from Cons.IH[OF this] False show ?thesis by (simp add: boundCopies_Cons)
  next
    case True
    from True Cons.prems obtain copy where l: "lookupClone st (uniqueId (node m)) = Some copy"
      by (cases "lookupClone st (uniqueId (node m))") (simp_all add: bindMeshes_unresolved)
    let ?F = "\<lambda>n::NodeFields. n\<lparr>skeleton := Some (sk_uniqueId clone)\<rparr>"
    let ?st1 = "updateNode copy ?F st"
    let ?st2 = "?st1\<lparr>alreadySwapped := alreadySwapped st @ [sk_uniqueId clone]\<rparr>"
    have bc: "boundCopies st s (m # ms) = insert copy (boundCopies st s ms)"
      using True l by (simp add: boundCopies_Cons)
    have a: "\<forall>x. nodes ?st1 x = (if x = copy then map_option ?F (nodes st copy) else nodes st x)"
      by (simp add: updateNode_nodes)
    have idem: "\<And>n. ?F (?F n) = ?F n" by simp
    show ?thesis
    proof (cases "sk_uniqueId clone \<in> set (alreadySwapped st)")
      case sw: True
      with Cons.prems have r: "bindMeshes s ms clone ?st1 = Inr (clone', st')"
        by (simp add: bindMeshes_bound[OF True l])
      have bc1: "boundCopies ?st1 s ms = boundCopies st s ms"
        by (rule boundCopies_cong) (simp_all add: updateNode_frame)
      from Cons.IH[OF r] have b: "\<forall>x. nodes st' x =
          (if x \<in> boundCopies st s ms then map_option ?F (nodes ?st1 x) else nodes ?st1 x)"
        by (simp add: bc1)
      show ?thesis unfolding bc by (rule setSkeleton_nodes_twice[OF idem a b])
    next
      case sw: False
      let ?clone1 = "clone\<lparr>bones := map (relinkBone st) (bones clone)\<rparr>"
      from sw Cons.prems have r: "bindMeshes s ms ?clone1 ?st2 = Inr (clone', st')"
        by (simp add: bindMeshes_bound[OF True l])
      have bc1: "boundCopies ?st2 s ms = boundCopies st s ms"
        by (rule boundCopies_cong) (simp_all add: updateNode_frame)
      have a2: "\<forall>x. nodes ?st2 x = (if x = copy then map_option ?F (nodes st copy) else nodes st x)"
        using a by simp
      from Cons.IH[OF r] have b: "\<forall>x. nodes st' x =
          (if x \<in> boundCopies st s ms then map_option ?F (nodes ?st2 x) else nodes ?st2 x)"
        by (simp add: bc1)
      show ?thesis unfolding bc by (rule setSkeleton_nodes_twice[OF idem a2 b])
    qed
  qed
qed

lemma bindMeshes_swapped:
  "bindMeshes s ms clone st = Inr (clone', st') \<Longrightarrow>
     (if sk_uniqueId clone \<in> set (alreadySwapped st) \<or> \<not> (\<exists>m\<in>set ms. boundTo s m)
      then clone' = clone \<and> alreadySwapped st' = alreadySwapped st
      else clone' = clone\<lparr>bones := map (relinkBone st) (bones clone)\<rparr> \<and>
           alreadySwapped st' = alreadySwapped st @ [sk_uniqueId clone])"
proof (induction ms arbitrary: clone st)
  case Nil
  then show ?case by simp
next
  case (Cons m ms)
  show ?case
  proof (cases "boundTo s m")
    case False
    with Cons.prems have "bindMeshes s ms clone st = Inr (clone', st')"
      by (simp add: bindMeshes_unbound)
    from Cons.IH[OF this] False show ?thesis by simp
  next
    case True
    from True Cons.prems obtain copy where l: "lookupClone st (uniqueId (node m)) = Some copy"
      by (cases "lookupClone st (uniqueId (node m))") (simp_all add: bindMeshes_unresolved)
    let ?F = "\<lambda>n::NodeFields. n\<lparr>skeleton := Some (sk_uniqueId clone)\<rparr>"
    let ?st1 = "updateNode copy ?F st"
    let ?st2 = "?st1\<lparr>alreadySwapped := alreadySwapped st @ [sk_uniqueId clone]\<rparr>"
    show ?thesis
    proof (cases "sk_uniqueId clone \<in> set (alreadySwapped st)")
      case sw: True
      with Cons.prems have r: "bindMeshes s ms clone ?st1 = Inr (clone', st')"
        by (simp add: bindMeshes_bound[OF True l])
      have "alreadySwapped ?st1 = alreadySwapped st" by (simp add: updateNode_frame)
      with Cons.IH[OF r] sw show ?thesis by simp
    next
      case sw: False
      let ?clone1 = "clone\<lparr>bones := map (relinkBone st) (bones clone)\<rparr>"
      from sw Cons.prems have r: "bindMeshes s ms ?clone1 ?st2 = Inr (clone', st')"
        by (simp add: bindMeshes_bound[OF True l])
      have "sk_uniqueId ?clone1 \<in> set (alreadySwapped ?st2)" by simp
      with Cons.IH[OF r] have "clone' = ?clone1 \<and> alreadySwapped st' = alreadySwapped ?st2"
        by simp
      with sw True show ?thesis by simp
    qed
  qed
qed

lemma bindMeshes_succeeds_iff:
  "(\<exists>r. bindMeshes s ms clone st = Inr r) \<longleftrightarrow>
     (\<forall>m\<in>set ms. boundTo s m \<longrightarrow> lookupClone st (uniqueId (node m)) \<noteq> None)"
proof (induction ms arbitrary: clone st)
  case Nil
  then show ?case by simp
next
  case (Cons m ms)
  show ?case
  proof (cases "boundTo s m")
    case False
    with Cons.IH[of clone st] show ?thesis by (simp add: bindMeshes_unbound)
  next
    case True
    show ?thesis
    proof (cases "lookupClone st (uniqueId (node m))")
      case None
      with True show ?thesis by (simp add: bindMeshes_unresolved)
    next
      case (Some copy)
      let ?F = "\<lambda>n::NodeFields. n\<lparr>skeleton := Some (sk_uniqueId clone)\<rparr>"
      let ?st1 = "updateNode copy ?F st"
      let ?st2 = "?st1\<lparr>alreadySwapped := alreadySwapped st @ [sk_uniqueId clone]\<rparr>"
      have l1: "lookupClone ?st1 = lookupClone st"
        by (rule lookupClone_cong) (simp_all add: updateNode_frame)
      have l2: "lookupClone ?st2 = lookupClone st"
        by (rule lookupClone_cong) (simp_all add: updateNode_frame)
      show ?thesis
      proof (cases "sk_uniqueId clone \<in> set (alreadySwapped st)")
        case sw: True
        with Cons.IH[of clone ?st1] True Some l1 show ?thesis
          by (simp add: bindMeshes_bound[OF True Some])
      next
        case sw: False
        with Cons.IH[of "clone\<lparr>bones := map (relinkBone st) (bones clone)\<rparr>" ?st2] True Some l2
        show ?thesis
          by (simp add: bindMeshes_bound[OF True Some])
      qed
    qed
  qed
qed

subsection \<open>The loop over the skeletons\<close>

lemma expectedSkeletons_length: "length (expectedSkeletons c st i ss) = length ss"
  by (induction ss arbitrary: i) simp_all

lemma expectedSkeletons_nth:
  "k < length ss \<Longrightarrow> expectedSkeletons c st i ss ! k = expectedSkeleton c st (ss ! k) (i + k)"
proof (induction ss arbitrary: i k)
  case Nil
  then show ?case by simp
next
  case (Cons s ss)
  then show ?case by (cases k) simp_all
qed

lemma expectedSkeleton_cong:
  assumes "convertionMap st' = convertionMap st" "storeMap st' = storeMap st"
  shows "expectedSkeleton c st' = expectedSkeleton c st"
  by (intro ext) (simp add: expectedSkeleton_def lookupClone_cong[OF assms] relinkBone_cong[OF assms]
        cong: option.case_cong)

lemma expectedSkeletons_cong:
  assumes "convertionMap st' = convertionMap st" "storeMap st' = storeMap st"
  shows "expectedSkeletons c st' i ss = expectedSkeletons c st i ss"
  by (induction ss arbitrary: i) (simp_all add: expectedSkeleton_cong[OF assms])

lemma expectedSwapped_bounds: "x \<in> set (expectedSwapped c i ss) \<Longrightarrow> i \<le> x \<and> x < i + length ss"
proof (induction ss arbitrary: i)
  case Nil
  then show ?case by simp
next
  case (Cons s ss)
  then show ?case by (fastforce split: if_splits)
qed

lemma expectedSwapped_count:
  "k < length ss \<Longrightarrow>
     count_list (expectedSwapped c i ss) (i + k) = (if hasBoundMesh c (ss ! k) then 1 else 0)"
proof (induction ss arbitrary: i k)
  case Nil
  then show ?case by simp
next
  case (Cons s ss)
  show ?case
  proof (cases k)
    case 0
    have "i \<notin> set (expectedSwapped c (Suc i) ss)"
      using expectedSwapped_bounds[of i c "Suc i" ss] by auto
    then have "count_list (expectedSwapped c (Suc i) ss) i = 0" by (simp add: count_list_0_iff)
    with 0 show ?thesis by simp
  next
    case (Suc j)
    with Cons.prems have "j < length ss" by simp
    from Cons.IH[OF this, of "Suc i"] Suc show ?thesis by simp
  qed
qed

lemma expectedSwapped_distinct: "distinct (expectedSwapped c i ss)"
proof (induction ss arbitrary: i)
  case Nil
  show ?case by simp
next
  case (Cons s ss)
  have "i \<notin> set (expectedSwapped c (Suc i) ss)"
    using expectedSwapped_bounds[of i c "Suc i" ss] by auto
  with Cons show ?case by simp
qed

lemma lookupClone_counter:
  "lookupClone (st\<lparr>uniqueIdCounter := k\<rparr>) = lookupClone st"
  by (rule lookupClone_cong) simp_all

lemma relinkBone_counter:
  "relinkBone (st\<lparr>uniqueIdCounter := k\<rparr>) = relinkBone st"
  by (rule relinkBone_cong) simp_all

lemma boundCopies_counter:
  "boundCopies (st\<lparr>uniqueIdCounter := k\<rparr>) s ms = boundCopies st s ms"
  by (rule boundCopies_cong) simp_all

lemma cloneSkeleton_unfold:
  "cloneSkeleton c s st =
     (case bindMeshes s (meshes c)
             (s\<lparr>sk_uniqueId := uniqueIdCounter st, sk_name := ''Clone of '' @ sk_name s,
                overrideMesh := (case overrideMesh s of None \<Rightarrow> None | Some om \<Rightarrow> lookupClone st om)\<rparr>)
             (st\<lparr>uniqueIdCounter := uniqueIdCounter st + 1\<rparr>) of
        Inl e \<Rightarrow> Inl e
      | Inr (clone2, st2) \<Rightarrow>
          Inr (st2\<lparr>result := (result st2)\<lparr>ie_skeletons := ie_skeletons (result st2) @ [clone2]\<rparr>\<rparr>))"
proof (cases "overrideMesh s")
  case None
  have eq: "\<And>a b. s\<lparr>sk_uniqueId := a, sk_name := b, overrideMesh := None\<rparr> = s\<lparr>sk_uniqueId := a, sk_name := b\<rparr>"
    by (rule Skeleton.equality) (simp_all add: None)
  show ?thesis
    by (simp add: cloneSkeleton_def Skeleton_clone_def Let_def None eq)
next
  case (Some om)
  show ?thesis
    by (simp add: cloneSkeleton_def Skeleton_clone_def Let_def Some lookupClone_counter)
qed

lemma cloneSkeleton_succeeds_iff:
  "(\<exists>st'. cloneSkeleton c s st = Inr st') \<longleftrightarrow>
     (\<forall>m\<in>set (meshes c). boundTo s m \<longrightarrow> lookupClone st (uniqueId (node m)) \<noteq> None)"
proof -
  let ?st1 = "st\<lparr>uniqueIdCounter := uniqueIdCounter st + 1\<rparr>"
  let ?cl = "s\<lparr>sk_uniqueId := uniqueIdCounter st, sk_name := ''Clone of '' @ sk_name s,
                overrideMesh := (case overrideMesh s of None \<Rightarrow> None | Some om \<Rightarrow> lookupClone st om)\<rparr>"
  have l: "lookupClone ?st1 = lookupClone st" by (rule lookupClone_counter)
  have "(\<exists>st'. cloneSkeleton c s st = Inr st') \<longleftrightarrow> (\<exists>r. bindMeshes s (meshes c) ?cl ?st1 = Inr r)"
    unfolding cloneSkeleton_unfold by (auto split: sum.splits)
  then show ?thesis unfolding bindMeshes_succeeds_iff l .
qed

lemma cloneSkeleton_effect:
  assumes run: "cloneSkeleton c s st = Inr st'"
    and fresh: "uniqueIdCounter st \<notin> set (alreadySwapped st)"
  shows "ie_skeletons (result st') = ie_skeletons (result st) @ [expectedSkeleton c st s (uniqueIdCounter st)]"
    and "alreadySwapped st' = alreadySwapped st @ (if hasBoundMesh c s then [uniqueIdCounter st] else [])"
    and "\<forall>x. nodes st' x =
          (if x \<in> boundCopies st s (meshes c)
           then map_option (\<lambda>n. n\<lparr>skeleton := Some (uniqueIdCounter st)\<rparr>) (nodes st x)
           else nodes st x)"
proof -
  let ?st1 = "st\<lparr>uniqueIdCounter := uniqueIdCounter st + 1\<rparr>"
  let ?cl = "s\<lparr>sk_uniqueId := uniqueIdCounter st, sk_name := ''Clone of '' @ sk_name s,
                overrideMesh := (case overrideMesh s of None \<Rightarrow> None | Some om \<Rightarrow> lookupClone st om)\<rparr>"
  from run obtain clone2 st2 where b: "bindMeshes s (meshes c) ?cl ?st1 = Inr (clone2, st2)"
    and e: "st' = st2\<lparr>result := (result st2)\<lparr>ie_skeletons := ie_skeletons (result st2) @ [clone2]\<rparr>\<rparr>"
    unfolding cloneSkeleton_unfold by (auto split: sum.splits)
  note rl = relinkBone_counter[where st = st]
  note bc = boundCopies_counter[where st = st]
  from bindMeshes_swapped[OF b] fresh
  have sw: "if hasBoundMesh c s
            then clone2 = ?cl\<lparr>bones := map (relinkBone st) (bones ?cl)\<rparr> \<and>
                 alreadySwapped st2 = alreadySwapped st @ [uniqueIdCounter st]
            else clone2 = ?cl \<and> alreadySwapped st2 = alreadySwapped st"
    by (simp add: hasBoundMesh_def rl split: if_splits)
  have res2: "result st2 = result st" using bindMeshes_frame[OF b] by simp
  from sw have c2: "clone2 = expectedSkeleton c st s (uniqueIdCounter st)"
    by (simp add: expectedSkeleton_def split: if_splits)
  show "ie_skeletons (result st') = ie_skeletons (result st) @ [expectedSkeleton c st s (uniqueIdCounter st)]"
    using e res2 c2 by simp
  show "alreadySwapped st' = alreadySwapped st @ (if hasBoundMesh c s then [uniqueIdCounter st] else [])"
    using e sw by (simp split: if_splits)
  show "\<forall>x. nodes st' x =
          (if x \<in> boundCopies st s (meshes c)
           then map_option (\<lambda>n. n\<lparr>skeleton := Some (uniqueIdCounter st)\<rparr>) (nodes st x)
           else nodes st x)"
    using bindMeshes_nodes[OF b] e bc by simp
qed

lemma cloneSkeletons_succeeds_iff:
  "(\<exists>st'. cloneSkeletons c ss st = Inr st') \<longleftrightarrow>
     (\<forall>s\<in>set ss. \<forall>m\<in>set (meshes c). boundTo s m \<longrightarrow> lookupClone st (uniqueId (node m)) \<noteq> None)"
proof (induction ss arbitrary: st)
  case Nil
  show ?case by simp
next
  case (Cons s ss)
  show ?case
  proof (cases "cloneSkeleton c s st")
    case (Inl e)
    with cloneSkeleton_succeeds_iff[of c s st] show ?thesis by auto
  next
    case (Inr st1)
    have l: "lookupClone st1 = lookupClone st"
      using cloneSkeleton_frame[OF Inr] by (intro lookupClone_cong) simp_all
    from Inr cloneSkeleton_succeeds_iff[of c s st]
    have h: "\<forall>m\<in>set (meshes c). boundTo s m \<longrightarrow> lookupClone st (uniqueId (node m)) \<noteq> None"
      by blast
    from Cons.IH[of st1] Inr h show ?thesis by (simp add: l)
  qed
qed

lemma cloneSkeletons_effect:
  assumes "cloneSkeletons c ss st = Inr st'"
    and "\<forall>x\<in>set (alreadySwapped st). x < uniqueIdCounter st"
  shows "ie_skeletons (result st') = ie_skeletons (result st) @ expectedSkeletons c st (uniqueIdCounter st) ss \<and>
         alreadySwapped st' = alreadySwapped st @ expectedSwapped c (uniqueIdCounter st) ss"
  using assms
proof (induction ss arbitrary: st)
  case Nil
  then show ?case by simp
next
  case (Cons s ss)
  from Cons.prems(1) obtain st1 where 1: "cloneSkeleton c s st = Inr st1"
    and 2: "cloneSkeletons c ss st1 = Inr st'"
    by (auto split: sum.splits)
  have fresh: "uniqueIdCounter st \<notin> set (alreadySwapped st)" using Cons.prems(2) by auto
  note e = cloneSkeleton_effect[OF 1 fresh]
  note f = cloneSkeleton_frame[OF 1]
  have inv1: "\<forall>x\<in>set (alreadySwapped st1). x < uniqueIdCounter st1"
    using e(2) f Cons.prems(2) by (auto split: if_splits)
  have cnt1: "uniqueIdCounter st1 = Suc (uniqueIdCounter st)" using f by simp
  have "expectedSkeletons c st1 (uniqueIdCounter st1) ss = expectedSkeletons c st (uniqueIdCounter st1) ss"
    using f by (intro expectedSkeletons_cong) simp_all
  then have ex: "expectedSkeletons c st1 (uniqueIdCounter st1) ss = expectedSkeletons c st (Suc (uniqueIdCounter st)) ss"
    by (simp only: cnt1)
  note IH = Cons.IH[OF 2 inv1]
  have "ie_skeletons (result st') = ie_skeletons (result st1) @ expectedSkeletons c st1 (uniqueIdCounter st1) ss"
    using IH by (rule conjunct1)
  also have "\<dots> = (ie_skeletons (result st) @ [expectedSkeleton c st s (uniqueIdCounter st)])
                      @ expectedSkeletons c st (Suc (uniqueIdCounter st)) ss"
    by (simp only: e(1) ex)
  finally have A: "ie_skeletons (result st') =
      ie_skeletons (result st) @ expectedSkeletons c st (uniqueIdCounter st) (s # ss)"
    by simp
  have "alreadySwapped st' = alreadySwapped st1 @ expectedSwapped c (uniqueIdCounter st1) ss"
    using IH by (rule conjunct2)
  also have "\<dots> = (alreadySwapped st @ (if hasBoundMesh c s then [uniqueIdCounter st] else []))
                      @ expectedSwapped c (Suc (uniqueIdCounter st)) ss"
    by (simp only: e(2) cnt1)
  finally have B: "alreadySwapped st' = alreadySwapped st @ expectedSwapped c (uniqueIdCounter st) (s # ss)"
    by simp
  from A B show ?case by (rule conjI)
qed

lemma cloneSkeletons_nodes:
  assumes "cloneSkeletons c ss st = Inr st'"
    and "\<forall>x\<in>set (alreadySwapped st). x < uniqueIdCounter st"
  shows "(nodes st x = None \<longrightarrow> nodes st' x = None) \<and>
         (\<forall>n. nodes st x = Some n \<longrightarrow>
            (\<exists>sk. nodes st' x = Some (n\<lparr>skeleton := sk\<rparr>) \<and>
                  ((\<exists>k<length ss. x \<in> boundCopies st (ss ! k) (meshes c)) \<longrightarrow>
                   (\<exists>k<length ss. x \<in> boundCopies st (ss ! k) (meshes c) \<and>
                          sk = Some (uniqueIdCounter st + k))) \<and>
                  ((\<forall>k<length ss. x \<notin> boundCopies st (ss ! k) (meshes c)) \<longrightarrow> sk = skeleton n)))"
  using assms
proof (induction ss arbitrary: st)
  case Nil
  have "\<And>n::NodeFields. n = n\<lparr>skeleton := skeleton n\<rparr>" by simp
  with Nil show ?case by auto
next
  case (Cons s ss)
  from Cons.prems(1) obtain st1 where 1: "cloneSkeleton c s st = Inr st1"
    and 2: "cloneSkeletons c ss st1 = Inr st'"
    by (auto split: sum.splits)
  have fresh: "uniqueIdCounter st \<notin> set (alreadySwapped st)" using Cons.prems(2) by auto
  note e = cloneSkeleton_effect[OF 1 fresh]
  note f = cloneSkeleton_frame[OF 1]
  have cnt1: "uniqueIdCounter st1 = Suc (uniqueIdCounter st)" using f by simp
  have inv1: "\<forall>x\<in>set (alreadySwapped st1). x < uniqueIdCounter st1"
    using e(2) f Cons.prems(2) by (auto split: if_splits)
  have bc: "\<And>s'. boundCopies st1 s' (meshes c) = boundCopies st s' (meshes c)"
    using f by (intro boundCopies_cong) simp_all
  note IH = Cons.IH[OF 2 inv1, unfolded bc]
  let ?B = "\<lambda>s'. boundCopies st s' (meshes c)"
  note IH' = IH
  have ex_Cons: "(\<exists>k<length (s # ss). x \<in> ?B ((s # ss) ! k)) \<longleftrightarrow> x \<in> ?B s \<or> (\<exists>k<length ss. x \<in> ?B (ss ! k))"
    by (auto simp: less_Suc_eq_0_disj)
  have none: "nodes st x = None \<longrightarrow> nodes st' x = None"
  proof
    assume "nodes st x = None"
    then have "nodes st1 x = None" using e(3) by simp
    with IH'[THEN conjunct1] show "nodes st' x = None" by (rule mp)
  qed
  have some: "\<exists>sk. nodes st' x = Some (n\<lparr>skeleton := sk\<rparr>) \<and>
                  ((\<exists>k<length (s # ss). x \<in> ?B ((s # ss) ! k)) \<longrightarrow>
                   (\<exists>k<length (s # ss). x \<in> ?B ((s # ss) ! k) \<and> sk = Some (uniqueIdCounter st + k))) \<and>
                  ((\<forall>k<length (s # ss). x \<notin> ?B ((s # ss) ! k)) \<longrightarrow> sk = skeleton n)"
    if n: "nodes st x = Some n" for n
  proof -
    define n1 where "n1 = (if x \<in> ?B s then n\<lparr>skeleton := Some (uniqueIdCounter st)\<rparr> else n)"
    have n1: "nodes st1 x = Some n1" using e(3) n by (simp add: n1_def)
    note step = IH'[THEN conjunct2, rule_format, OF n1]
    from step obtain sk where sk0: "nodes st' x = Some (n1\<lparr>skeleton := sk\<rparr>) \<and>
         ((\<exists>k<length ss. x \<in> ?B (ss ! k)) \<longrightarrow>
                 (\<exists>k<length ss. x \<in> ?B (ss ! k) \<and> sk = Some (uniqueIdCounter st1 + k))) \<and>
         ((\<forall>k<length ss. x \<notin> ?B (ss ! k)) \<longrightarrow> sk = skeleton n1)" ..
    note sk = sk0[THEN conjunct1]
    note cA = sk0[THEN conjunct2, THEN conjunct1]
    note cB = sk0[THEN conjunct2, THEN conjunct2]
    have eqn: "n1\<lparr>skeleton := sk\<rparr> = n\<lparr>skeleton := sk\<rparr>" by (simp add: n1_def)
    have A: "\<exists>k<length (s # ss). x \<in> ?B ((s # ss) ! k) \<and> sk = Some (uniqueIdCounter st + k)"
      if "\<exists>k<length (s # ss). x \<in> ?B ((s # ss) ! k)"
    proof (cases "\<exists>k<length ss. x \<in> ?B (ss ! k)")
      case True
      with cA obtain k where k: "k < length ss" "x \<in> ?B (ss ! k)" "sk = Some (uniqueIdCounter st1 + k)"
        by blast
      have "Suc k < length (s # ss)" using k(1) by simp
      moreover have "x \<in> ?B ((s # ss) ! Suc k)" using k(2) by simp
      moreover have "sk = Some (uniqueIdCounter st + Suc k)" using k(3) cnt1 by simp
      ultimately show ?thesis by blast
    next
      case False
      with that ex_Cons have xs: "x \<in> ?B s" by blast
      from False cB have "sk = skeleton n1" by blast
      with xs have "sk = Some (uniqueIdCounter st + 0)" by (simp add: n1_def)
      moreover have "0 < length (s # ss)" by simp
      moreover have "x \<in> ?B ((s # ss) ! 0)" using xs by simp
      ultimately show ?thesis by blast
    qed
    have Bc: "sk = skeleton n" if "\<forall>k<length (s # ss). x \<notin> ?B ((s # ss) ! k)"
    proof -
      from that ex_Cons have "x \<notin> ?B s" and "\<forall>k<length ss. x \<notin> ?B (ss ! k)" by blast+
      with cB show ?thesis by (simp add: n1_def)
    qed
    have "nodes st' x = Some (n\<lparr>skeleton := sk\<rparr>)" using sk eqn by simp
    with A Bc show ?thesis by (intro exI[of _ sk] conjI impI)
  qed
  show ?case
  proof (intro conjI allI impI)
    show "nodes st x = None \<Longrightarrow> nodes st' x = None" using none by (rule mp)
  next
    fix n assume "nodes st x = Some n"
    then show "\<exists>sk. nodes st' x = Some (n\<lparr>skeleton := sk\<rparr>) \<and>
                  ((\<exists>k<length (s # ss). x \<in> ?B ((s # ss) ! k)) \<longrightarrow>
                   (\<exists>k<length (s # ss). x \<in> ?B ((s # ss) ! k) \<and> sk = Some (uniqueIdCounter st + k))) \<and>
                  ((\<forall>k<length (s # ss). x \<notin> ?B ((s # ss) ! k)) \<longrightarrow> sk = skeleton n)"
      by (rule some)
  qed
qed

subsection \<open>The root clones\<close>

lemma hierarchySize_pos: "0 < hierarchySize n"
  by (cases n) (simp add: hierarchySize_simps)

lemma cloneIds_length: "length (cloneIds i ns) = length ns"
  by (induction ns arbitrary: i) simp_all

lemma cloneIds_bounds:
  "x \<in> set (cloneIds i ns) \<Longrightarrow> i \<le> x \<and> x < i + sum_list (map hierarchySize ns)"
proof (induction ns arbitrary: i)
  case Nil
  then show ?case by simp
next
  case (Cons n ns)
  from Cons.prems have "x = i \<or> x \<in> set (cloneIds (i + hierarchySize n) ns)" by simp
  then show ?case
  proof
    assume "x = i"
    then show ?thesis using hierarchySize_pos[of n] by simp
  next
    assume "x \<in> set (cloneIds (i + hierarchySize n) ns)"
    from Cons.IH[OF this] show ?thesis by simp
  qed
qed


lemma cloneIds_append:
  "cloneIds i (xs @ ys) = cloneIds i xs @ cloneIds (i + sum_list (map hierarchySize xs)) ys"
  by (induction xs arbitrary: i) (simp_all add: add.assoc)

lemma rootCloneOf_mono:
  assumes "rootCloneOf a r n" "nodesBelow a b" "r < uniqueIdCounter a"
  shows "rootCloneOf b r n"
  using assms by (auto simp: rootCloneOf_def nodesBelow_def)

lemma rootCloneOf_result [simp]:
  "rootCloneOf (st\<lparr>result := x\<rparr>) r n = rootCloneOf st r n"
  by (simp add: rootCloneOf_def)

lemma nodesBelow_result [simp]:
  "nodesBelow a (b\<lparr>result := x\<rparr>) = nodesBelow a b"
  "nodesBelow (a\<lparr>result := x\<rparr>) b = nodesBelow a b"
  by (simp_all add: nodesBelow_def)

lemma instantiateRoots_skip:
  "\<not> isRoot n \<Longrightarrow> instantiateRoots (n # ns) st = instantiateRoots ns st"
  unfolding isRoot_def by (subst instantiateRoots.simps(2)) (simp only: if_False)

lemma instantiateRoots_root:
  assumes "isRoot n" "instantiateHierarchy onClone n None st = Inr (Some r, st1)"
  shows "instantiateRoots (n # ns) st =
           instantiateRoots ns (st1\<lparr>result := (result st1)\<lparr>rootNodes := rootNodes (result st1) @ [r]\<rparr>\<rparr>)"
  using assms by (simp add: isRoot_def)

declare instantiateRoots.simps(2) [simp del]

lemma hierarchy_root_run:
  obtains st1 where "instantiateHierarchy onClone n None st = Inr (Some (uniqueIdCounter st), st1)"
proof -
  obtain r st1 where h: "instantiateHierarchy onClone n None st = Inr (Some r, st1)"
    using hierarchy_succeeds(1) by blast
  from hierarchy_counter_dom(1)[OF h] have "r = uniqueIdCounter st" by simp
  with h that show ?thesis by blast
qed


lemma instantiateRoots_effect:
  "instantiateRoots ns st = Inr st' \<Longrightarrow>
     rootNodes (result st') = rootNodes (result st) @ cloneIds (uniqueIdCounter st) (filter isRoot ns) \<and>
     uniqueIdCounter st' = uniqueIdCounter st + sum_list (map hierarchySize (filter isRoot ns)) \<and>
     dom (convertionMap st') = dom (convertionMap st) \<union> (\<Union>n\<in>set (filter isRoot ns). hierarchyIds n) \<and>
     nodesBelow st st' \<and>
     list_all2 (rootCloneOf st') (cloneIds (uniqueIdCounter st) (filter isRoot ns)) (filter isRoot ns)"
proof (induction ns arbitrary: st)
  case Nil
  then show ?case by (simp add: nodesBelow_refl)
next
  case (Cons n ns)
  show ?case
  proof (cases "isRoot n")
    case False
    with Cons show ?thesis by (simp add: instantiateRoots_skip)
  next
    case True
    obtain st1 where h: "instantiateHierarchy onClone n None st = Inr (Some (uniqueIdCounter st), st1)"
      by (rule hierarchy_root_run)
    note u = instantiateRoots_root[OF True h, of ns]
    let ?st1 = "st1\<lparr>result := (result st1)\<lparr>rootNodes := rootNodes (result st1) @ [uniqueIdCounter st]\<rparr>\<rparr>"
    from Cons.prems u have r: "instantiateRoots ns ?st1 = Inr st'" by simp
    note IH = Cons.IH[OF r]
    note cd = hierarchy_counter_dom(1)[OF h]
    note nb = hierarchy_nodesBelow(1)[OF h]
    have res1: "result st1 = result st"
      using hierarchy_rel(1)[where R = "\<lambda>a b. result b = result a" and S = UNIV, OF _ _ _ h]
        cloneNode_fields onClone_frame by simp
    have rc: "rootCloneOf st1 (uniqueIdCounter st) n"
      using hierarchy_root_clone[OF h] True by (auto simp: rootCloneOf_def isRoot_def)
    have nb1: "nodesBelow ?st1 st'" using IH by blast
    then have nb1': "nodesBelow st1 st'" by simp
    have lt: "uniqueIdCounter st < uniqueIdCounter st1" using cd hierarchySize_pos[of n] by simp
    have rc': "rootCloneOf st' (uniqueIdCounter st) n"
      by (rule rootCloneOf_mono[OF rc nb1' lt])
    have A: "rootNodes (result st') = rootNodes (result st) @ cloneIds (uniqueIdCounter st) (filter isRoot (n # ns))"
      using IH True cd res1 by simp
    have B: "uniqueIdCounter st' = uniqueIdCounter st + sum_list (map hierarchySize (filter isRoot (n # ns)))"
      using IH True cd by simp
    have C: "dom (convertionMap st') = dom (convertionMap st) \<union> (\<Union>n\<in>set (filter isRoot (n # ns)). hierarchyIds n)"
      using IH True cd by (simp add: Un_assoc)
    have D: "nodesBelow st st'" using nb nb1' by (rule nodesBelow_trans)
    have E: "list_all2 (rootCloneOf st') (cloneIds (uniqueIdCounter st) (filter isRoot (n # ns))) (filter isRoot (n # ns))"
      using IH True cd rc' by simp
    from A B C D E show ?thesis by blast
  qed
qed

lemma allRoots_effect:
  assumes "instantiateAllRoots c (initialPass sc) = Inr st2"
  shows "rootNodes (result st2) = cloneIds (sceneUniqueIdCounter sc) (filter isRoot (transformNodes c @ meshes c))"
    and "uniqueIdCounter st2 =
           sceneUniqueIdCounter sc + sum_list (map hierarchySize (filter isRoot (transformNodes c @ meshes c)))"
    and "dom (convertionMap st2) = capturedIds c"
    and "list_all2 (rootCloneOf st2)
           (cloneIds (sceneUniqueIdCounter sc) (filter isRoot (transformNodes c @ meshes c)))
           (filter isRoot (transformNodes c @ meshes c))"
    and "tablesOK st2" and "alreadySwapped st2 = []" and "ie_skeletons (result st2) = []"
    and "ie_animationGroups (result st2) = []"
proof -
  from assms obtain st1 where 1: "instantiateRoots (transformNodes c) (initialPass sc) = Inr st1"
    and 2: "instantiateRoots (meshes c) st1 = Inr st2"
    by (auto simp: instantiateAllRoots_def split: sum.splits)
  note e1 = instantiateRoots_effect[OF 1]
  note e2 = instantiateRoots_effect[OF 2]
  let ?T = "filter isRoot (transformNodes c)" and ?M = "filter isRoot (meshes c)"
  have c0: "uniqueIdCounter (initialPass sc) = sceneUniqueIdCounter sc"
    "rootNodes (result (initialPass sc)) = []" "convertionMap (initialPass sc) = Map.empty"
    by (simp_all add: initialPass_def)
  have c1: "uniqueIdCounter st1 = sceneUniqueIdCounter sc + sum_list (map hierarchySize ?T)"
    using e1 c0 by simp
  show "rootNodes (result st2) = cloneIds (sceneUniqueIdCounter sc) (filter isRoot (transformNodes c @ meshes c))"
    using e1 e2 c0 c1 by (simp add: cloneIds_append)
  show "uniqueIdCounter st2 =
           sceneUniqueIdCounter sc + sum_list (map hierarchySize (filter isRoot (transformNodes c @ meshes c)))"
    using e2 c1 by simp
  show "dom (convertionMap st2) = capturedIds c"
    using e1 e2 c0 by (simp add: capturedIds_def Un_commute)
  have l1: "list_all2 (rootCloneOf st1) (cloneIds (sceneUniqueIdCounter sc) ?T) ?T"
    using e1 c0 by simp
  have nb: "nodesBelow st1 st2" using e2 by blast
  have l1': "list_all2 (rootCloneOf st2) (cloneIds (sceneUniqueIdCounter sc) ?T) ?T"
    unfolding list_all2_conv_all_nth
  proof (intro conjI allI impI)
    show "length (cloneIds (sceneUniqueIdCounter sc) ?T) = length ?T" by (rule cloneIds_length)
  next
    fix i assume i: "i < length (cloneIds (sceneUniqueIdCounter sc) ?T)"
    from l1 i have rc: "rootCloneOf st1 (cloneIds (sceneUniqueIdCounter sc) ?T ! i) (?T ! i)"
      by (simp add: list_all2_conv_all_nth)
    have "cloneIds (sceneUniqueIdCounter sc) ?T ! i \<in> set (cloneIds (sceneUniqueIdCounter sc) ?T)"
      using i by simp
    from cloneIds_bounds[OF this] c1
    have "cloneIds (sceneUniqueIdCounter sc) ?T ! i < uniqueIdCounter st1" by simp
    with rc nb show "rootCloneOf st2 (cloneIds (sceneUniqueIdCounter sc) ?T ! i) (?T ! i)"
      by (rule rootCloneOf_mono)
  qed
  have l2: "list_all2 (rootCloneOf st2) (cloneIds (uniqueIdCounter st1) ?M) ?M"
    using e2 by blast
  show "list_all2 (rootCloneOf st2)
           (cloneIds (sceneUniqueIdCounter sc) (filter isRoot (transformNodes c @ meshes c)))
           (filter isRoot (transformNodes c @ meshes c))"
    using list_all2_appendI[OF l1' l2] c1 by (simp add: cloneIds_append)
  show "tablesOK st2"
    using allRoots_tablesOK[OF assms] by (simp add: tablesOK_def initialPass_def)
  show "alreadySwapped st2 = []" "ie_skeletons (result st2) = []" "ie_animationGroups (result st2) = []"
    using allRoots_frame[OF assms] by (simp_all add: initialPass_def)
qed

subsection \<open>The state a pass returns\<close>

lemma pass_skeletons:
  assumes "instantiateModelsToScene c sc = Inr st"
  obtains st2 where "instantiateAllRoots c (initialPass sc) = Inr st2"
    and "convertionMap st = convertionMap st2" and "storeMap st = storeMap st2"
    and "ie_skeletons (result st) = expectedSkeletons c st (uniqueIdCounter st2) (skeletons c)"
    and "alreadySwapped st = expectedSwapped c (uniqueIdCounter st2) (skeletons c)"
    and "rootNodes (result st) = rootNodes (result st2)"
    and "uniqueIdCounter st = uniqueIdCounter st2 + length (skeletons c) + length (animationGroups c)"
proof -
  from assms obtain st2 st3 where p1: "instantiateAllRoots c (initialPass sc) = Inr st2"
    and p2: "cloneSkeletons c (skeletons c) st2 = Inr st3"
    and p3: "st = cloneAnimationGroups (animationGroups c) st3"
    by (rule pass_phases)
  note r = allRoots_effect[OF p1]
  have inv: "\<forall>x\<in>set (alreadySwapped st2). x < uniqueIdCounter st2" using r(6) by simp
  note e = cloneSkeletons_effect[OF p2 inv]
  note f3 = cloneSkeletons_frame[OF p2]
  note f4 = cloneAnimationGroups_effect[of "animationGroups c" st3]
  have t: "convertionMap st = convertionMap st2" "storeMap st = storeMap st2"
    using f3 f4 p3 by simp_all
  have ex: "expectedSkeletons c st (uniqueIdCounter st2) (skeletons c)
             = expectedSkeletons c st2 (uniqueIdCounter st2) (skeletons c)"
    by (rule expectedSkeletons_cong[OF t])
  have A: "ie_skeletons (result st) = expectedSkeletons c st (uniqueIdCounter st2) (skeletons c)"
    using e r(7) f4 p3 ex by simp
  have B: "alreadySwapped st = expectedSwapped c (uniqueIdCounter st2) (skeletons c)"
    using e r(6) f4 p3 by simp
  have C: "rootNodes (result st) = rootNodes (result st2)" using f3 f4 p3 by simp
  have D: "uniqueIdCounter st = uniqueIdCounter st2 + length (skeletons c) + length (animationGroups c)" using f3 f4 p3 by simp
  from that[OF p1 t A B C D] show ?thesis .
qed

lemma lookupClone_captured:
  assumes "instantiateAllRoots c (initialPass sc) = Inr st2"
  shows "lookupClone st2 k \<noteq> None \<longleftrightarrow> k \<in> capturedIds c"
proof -
  note r = allRoots_effect[OF assms]
  show ?thesis
  proof (cases "convertionMap st2 k")
    case None
    then have "k \<notin> dom (convertionMap st2)" by (simp add: dom_def)
    with None r(3) show ?thesis by (simp add: lookupClone_def)
  next
    case (Some cl)
    then have "k \<in> dom (convertionMap st2)" by (simp add: dom_def)
    moreover from Some r(5) have "storeMap st2 cl = Some cl" by (simp add: tablesOK_def)
    ultimately show ?thesis using Some r(3) by (simp add: lookupClone_def)
  qed
qed

lemma pass_succeeds_iff:
  "(\<exists>st. instantiateModelsToScene c sc = Inr st) \<longleftrightarrow> boundMeshesCaptured c"
proof -
  obtain st2 where p1: "instantiateAllRoots c (initialPass sc) = Inr st2"
    using allRoots_succeeds by blast
  have "(\<exists>st. instantiateModelsToScene c sc = Inr st) \<longleftrightarrow> (\<exists>st3. cloneSkeletons c (skeletons c) st2 = Inr st3)"
    using p1 by (auto simp: instantiateModelsToScene_def split: sum.splits)
  also have "\<dots> \<longleftrightarrow> (\<forall>s\<in>set (skeletons c). \<forall>m\<in>set (meshes c). boundTo s m \<longrightarrow>
                 lookupClone st2 (uniqueId (node m)) \<noteq> None)"
    by (rule cloneSkeletons_succeeds_iff)
  also have "\<dots> \<longleftrightarrow> boundMeshesCaptured c"
    unfolding lookupClone_captured[OF p1] boundMeshesCaptured_def boundTo_def ..
  finally show ?thesis .
qed

lemma example_captured: "boundMeshesCaptured exampleContainer"
  by code_simp

lemma example_tables:
  "case instantiateModelsToScene exampleContainer exampleScene of
     Inl e \<Rightarrow> False
   | Inr st \<Rightarrow> map (convertionMap st) [1, 2, 3, 20, 21, 99] =
                 [Some 100, Some 101, Some 104, Some 102, Some 103, None]"
  by code_simp

lemma hasBoundMesh_unfold:
  "hasBoundMesh c s \<longleftrightarrow> (\<exists>m\<in>set (meshes c). skeleton (node m) = Some (sk_uniqueId s) \<and> \<not> isAnInstance (node m))"
  by (simp add: hasBoundMesh_def boundTo_def)

lemma lookupClone_tablesOK: "tablesOK st \<Longrightarrow> lookupClone st k = convertionMap st k"
  by (cases "convertionMap st k") (simp_all add: lookupClone_def tablesOK_def)

lemma pass_tables:
  assumes "instantiateModelsToScene c sc = Inr st"
  shows "tablesOK st" and "dom (convertionMap st) = capturedIds c"
proof -
  obtain st2 where p1: "instantiateAllRoots c (initialPass sc) = Inr st2"
    and tabs: "convertionMap st = convertionMap st2" "storeMap st = storeMap st2"
    and sk: "ie_skeletons (result st) = expectedSkeletons c st (uniqueIdCounter st2) (skeletons c)"
    and sw: "alreadySwapped st = expectedSwapped c (uniqueIdCounter st2) (skeletons c)"
    and rn: "rootNodes (result st) = rootNodes (result st2)"
    and cnt: "uniqueIdCounter st = uniqueIdCounter st2 + length (skeletons c) + length (animationGroups c)"
    by (rule pass_skeletons[OF assms])
  note r = allRoots_effect[OF p1]
  show "tablesOK st" using r(5) tabs by (simp add: tablesOK_def)
  show "dom (convertionMap st) = capturedIds c" using r(3) tabs by simp
qed

lemma pass_skeletons_length:
  assumes "instantiateModelsToScene c sc = Inr st"
  shows "length (ie_skeletons (result st)) = length (skeletons c)"
proof -
  obtain st2 where p1: "instantiateAllRoots c (initialPass sc) = Inr st2"
    and tabs: "convertionMap st = convertionMap st2" "storeMap st = storeMap st2"
    and sk: "ie_skeletons (result st) = expectedSkeletons c st (uniqueIdCounter st2) (skeletons c)"
    and sw: "alreadySwapped st = expectedSwapped c (uniqueIdCounter st2) (skeletons c)"
    and rn: "rootNodes (result st) = rootNodes (result st2)"
    and cnt: "uniqueIdCounter st = uniqueIdCounter st2 + length (skeletons c) + length (animationGroups c)"
    by (rule pass_skeletons[OF assms(1)])
  show ?thesis unfolding sk by (rule expectedSkeletons_length)
qed

lemma pass_skeleton_nth:
  assumes "instantiateModelsToScene c sc = Inr st" "i < length (skeletons c)"
  shows "overrideMesh (ie_skeletons (result st) ! i) =
           (case overrideMesh (skeletons c ! i) of None \<Rightarrow> None | Some om \<Rightarrow> convertionMap st om)"
    and "bones (ie_skeletons (result st) ! i) =
           (if hasBoundMesh c (skeletons c ! i)
            then map (relinkBone st) (bones (skeletons c ! i)) else bones (skeletons c ! i))"
proof -
  obtain st2 where p1: "instantiateAllRoots c (initialPass sc) = Inr st2"
    and tabs: "convertionMap st = convertionMap st2" "storeMap st = storeMap st2"
    and sk: "ie_skeletons (result st) = expectedSkeletons c st (uniqueIdCounter st2) (skeletons c)"
    and sw: "alreadySwapped st = expectedSwapped c (uniqueIdCounter st2) (skeletons c)"
    and rn: "rootNodes (result st) = rootNodes (result st2)"
    and cnt: "uniqueIdCounter st = uniqueIdCounter st2 + length (skeletons c) + length (animationGroups c)"
    by (rule pass_skeletons[OF assms(1)])
  have nth: "ie_skeletons (result st) ! i = expectedSkeleton c st (skeletons c ! i) (uniqueIdCounter st2 + i)"
    using sk assms(2) by (simp add: expectedSkeletons_nth)
  note ok = pass_tables(1)[OF assms(1)]
  show "overrideMesh (ie_skeletons (result st) ! i) =
           (case overrideMesh (skeletons c ! i) of None \<Rightarrow> None | Some om \<Rightarrow> convertionMap st om)"
    unfolding nth by (simp add: expectedSkeleton_def lookupClone_tablesOK[OF ok] cong: option.case_cong)
  show "bones (ie_skeletons (result st) ! i) =
           (if hasBoundMesh c (skeletons c ! i)
            then map (relinkBone st) (bones (skeletons c ! i)) else bones (skeletons c ! i))"
    unfolding nth by (simp add: expectedSkeleton_def)
qed


lemma pass_nodes:
  assumes "instantiateModelsToScene c sc = Inr st"
    and "instantiateAllRoots c (initialPass sc) = Inr st2"
  shows "(nodes st2 x = None \<longrightarrow> nodes st x = None) \<and>
         (\<forall>n. nodes st2 x = Some n \<longrightarrow>
            (\<exists>sk. nodes st x = Some (n\<lparr>skeleton := sk\<rparr>) \<and>
                  ((\<exists>k<length (skeletons c). x \<in> boundCopies st2 (skeletons c ! k) (meshes c)) \<longrightarrow>
                   (\<exists>k<length (skeletons c). x \<in> boundCopies st2 (skeletons c ! k) (meshes c) \<and>
                          sk = Some (uniqueIdCounter st2 + k))) \<and>
                  ((\<forall>k<length (skeletons c). x \<notin> boundCopies st2 (skeletons c ! k) (meshes c)) \<longrightarrow>
                     sk = skeleton n)))"
proof -
  from assms(1) obtain st2' st3 where p1: "instantiateAllRoots c (initialPass sc) = Inr st2'"
    and p2: "cloneSkeletons c (skeletons c) st2' = Inr st3"
    and p3: "st = cloneAnimationGroups (animationGroups c) st3"
    by (rule pass_phases)
  from p1 assms(2) have eq: "st2' = st2" by simp
  have inv: "\<forall>x\<in>set (alreadySwapped st2). x < uniqueIdCounter st2"
    using allRoots_effect(6)[OF assms(2)] by simp
  have n: "nodes st = nodes st3" using p3 cloneAnimationGroups_effect[of "animationGroups c" st3] by simp
  show ?thesis unfolding n by (rule cloneSkeletons_nodes[OF p2[unfolded eq] inv])
qed

subsection \<open>The tables as a sequence of registrations\<close>

lemma last_filter_upt:
  assumes "i < n" "P i" "\<forall>j<n. i < j \<longrightarrow> \<not> P j"
  shows "last (filter P [0..<n]) = i"
proof -
  have "[0..<Suc i + (n - Suc i)] = [0..<Suc i] @ [Suc i..<Suc i + (n - Suc i)]"
    by (rule upt_add_eq_append) simp
  moreover have "Suc i + (n - Suc i) = n" using assms(1) by simp
  ultimately have split: "[0..<n] = [0..<i] @ [i] @ [Suc i..<n]" by simp
  have "filter P [Suc i..<n] = []" using assms(3) by (auto simp: filter_empty_conv)
  then show ?thesis using assms(2) by (simp add: split)
qed

lemma registerTargets_fold_idx:
  "registerTargets old new idxs st = Inr st' \<Longrightarrow>
     convertionMap st' =
       fold (\<lambda>i m. m(mt_uniqueId (targets old ! i) \<mapsto> mt_uniqueId (targets new ! i))) idxs (convertionMap st) \<and>
     storeMap st' =
       fold (\<lambda>i m. m(mt_uniqueId (targets new ! i) \<mapsto> mt_uniqueId (targets new ! i))) idxs (storeMap st)"
proof (induction idxs arbitrary: st)
  case Nil
  then show ?case by simp
next
  case (Cons i idxs)
  from Cons.prems obtain
    g: "i < length (targets old)" "i < length (targets new)"
    and r: "registerTargets old new idxs
              (st\<lparr>convertionMap := (convertionMap st)(mt_uniqueId (targets old ! i) \<mapsto> mt_uniqueId (targets new ! i)),
                  storeMap := (storeMap st)(mt_uniqueId (targets new ! i) \<mapsto> mt_uniqueId (targets new ! i))\<rparr>) = Inr st'"
    by (auto simp: getTarget_def split: option.splits if_splits)
  from Cons.IH[OF r] show ?case by simp
qed

lemma registerTargets_fold_pairs:
  assumes "registerTargets old new [0..<length (targets old)] st = Inr st'"
    and "length (targets new) = length (targets old)"
  shows "convertionMap st' =
           fold (\<lambda>(k, v) m. m(k \<mapsto> v))
             (zip (map mt_uniqueId (targets old)) (map mt_uniqueId (targets new))) (convertionMap st)"
    and "storeMap st' =
           fold (\<lambda>(k, v) m. m(v \<mapsto> v))
             (zip (map mt_uniqueId (targets old)) (map mt_uniqueId (targets new))) (storeMap st)"
proof -
  let ?n = "length (targets old)"
  have z: "zip (map mt_uniqueId (targets old)) (map mt_uniqueId (targets new))
            = map (\<lambda>i. (mt_uniqueId (targets old ! i), mt_uniqueId (targets new ! i))) [0..<?n]"
    by (rule nth_equalityI) (simp_all add: assms(2))
  note f = registerTargets_fold_idx[OF assms(1)]
  show "convertionMap st' =
           fold (\<lambda>(k, v) m. m(k \<mapsto> v))
             (zip (map mt_uniqueId (targets old)) (map mt_uniqueId (targets new))) (convertionMap st)"
    unfolding z fold_map using f by (simp add: comp_def)
  show "storeMap st' =
           fold (\<lambda>(k, v) m. m(v \<mapsto> v))
             (zip (map mt_uniqueId (targets old)) (map mt_uniqueId (targets new))) (storeMap st)"
    unfolding z fold_map using f by (simp add: comp_def)
qed

subsection \<open>The translation table is injective\<close>

lemma last_filter_in:
  assumes "k \<in> f ` set xs"
  shows "last (filter (\<lambda>i. f i = k) xs) \<in> set xs \<and> f (last (filter (\<lambda>i. f i = k) xs)) = k"
proof -
  from assms have ne: "filter (\<lambda>i. f i = k) xs \<noteq> []" by (auto simp: filter_empty_conv)
  from last_in_set[OF ne] show ?thesis by simp
qed

lemma step_lookup:
  assumes c: "cloneNode src np st = (cl, st1)" and o: "onClone src cl st1 = Inr st2"
    and l: "convertionMap st2 k = Some x"
  shows "(\<exists>j<length (managedTargets src).
            mt_uniqueId (managedTargets src ! j) = k \<and> x = uniqueIdCounter st + 1 + j)
         \<or> (k = uniqueId src \<and> x = uniqueIdCounter st)
         \<or> convertionMap st k = Some x"
proof -
  note f = cloneNode_fields[OF c]
  let ?st1 = "st1\<lparr>convertionMap := (convertionMap st1)(uniqueId src \<mapsto> uniqueId cl),
                   storeMap := (storeMap st1)(uniqueId cl \<mapsto> uniqueId cl)\<rparr>"
  show ?thesis
  proof (cases "isMesh cl \<and> morphTargetManager cl \<noteq> None")
    case False
    with o have "st2 = ?st1"
      by (auto simp: onClone_def Let_def split: if_splits option.splits)
    with l f show ?thesis by (auto split: if_splits)
  next
    case True
    from True o obtain old new st2' where
      srcm: "morphTargetManager src = Some old"
      and mc: "MorphTargetManager_clone old ?st1 = (new, st2')"
      and r: "registerTargets old new [0..<numTargets old]
                (updateNode (uniqueId cl) (\<lambda>n. n\<lparr>morphTargetManager := Some new\<rparr>) st2') = Inr st2"
      by (auto simp: onClone_def Let_def split: if_splits option.splits prod.splits)
    from True f srcm have mt: "managedTargets src = targets old" by (simp add: managedTargets_def)
    let ?n = "length (targets old)"
    have r': "registerTargets old new [0..<?n]
                (updateNode (uniqueId cl) (\<lambda>n. n\<lparr>morphTargetManager := Some new\<rparr>) st2') = Inr st2"
      using r by (simp add: numTargets_def)
    note f2 = MorphTargetManager_clone_frame[OF mc]
    have base: "convertionMap (updateNode (uniqueId cl) (\<lambda>n. n\<lparr>morphTargetManager := Some new\<rparr>) st2')
                  = (convertionMap st)(uniqueId src \<mapsto> uniqueIdCounter st)"
      using f2 f by (simp add: updateNode_frame)
    show ?thesis
    proof (cases "k \<in> (\<lambda>i. mt_uniqueId (targets old ! i)) ` set [0..<?n]")
      case in_img: True
      let ?j = "last (filter (\<lambda>i. mt_uniqueId (targets old ! i) = k) [0..<?n])"
      from last_filter_in[OF in_img] have j: "?j < ?n" "mt_uniqueId (targets old ! ?j) = k" by simp_all
      from registerTargets_convertionMap[OF r', of k] in_img l
      have "x = mt_uniqueId (targets new ! ?j)" by simp
      also have "\<dots> = uniqueIdCounter st + 1 + ?j"
        using MorphTargetManager_clone_targets[OF mc j(1)] f by simp
      finally show ?thesis using j mt by auto
    next
      case False
      from registerTargets_convertionMap[OF r', of k] False l base
      have "((convertionMap st)(uniqueId src \<mapsto> uniqueIdCounter st)) k = Some x" by simp
      then show ?thesis by (auto split: if_splits)
    qed
  qed
qed

lemma step_tablesInv:
  assumes c: "cloneNode src np st = (cl, st1)" and o: "onClone src cl st1 = Inr st2"
    and T: "mt_uniqueId ` set (managedTargets src) \<subseteq> T"
    and inv: "tablesInv T st"
  shows "tablesInv T st2"
proof -
  note f = cloneNode_fields[OF c]
  have cnt: "uniqueIdCounter st2 = uniqueIdCounter st + 1 + length (managedTargets src)"
    using onClone_counter_dom(1)[OF o] f by simp
  have nd: "\<And>i. i \<noteq> uniqueIdCounter st \<Longrightarrow> nodes st2 i = nodes st i"
    using onClone_nodes(1)[OF o] f by simp
  have "nodes st1 (uniqueId cl) = Some cl" using f by simp
  from onClone_nodes(3)[OF o this] have nc: "nodes st2 (uniqueIdCounter st) \<noteq> None" using f by auto
  note lk = step_lookup[OF c o]
  have old: "\<And>k x. convertionMap st k = Some x \<Longrightarrow> x < uniqueIdCounter st \<and> (k \<in> T \<or> nodes st x \<noteq> None)"
    using inv by (simp add: tablesInv_def)
  have inj: "\<And>a b x. convertionMap st a = Some x \<Longrightarrow> convertionMap st b = Some x \<Longrightarrow> a = b"
    using inv unfolding tablesInv_def by blast
  have A: "x < uniqueIdCounter st2 \<and> (k \<in> T \<or> nodes st2 x \<noteq> None)"
    if l: "convertionMap st2 k = Some x" for k x
    using lk[OF l]
  proof (elim disjE exE conjE)
    fix j assume "j < length (managedTargets src)" "mt_uniqueId (managedTargets src ! j) = k"
      "x = uniqueIdCounter st + 1 + j"
    then show ?thesis using cnt T by auto
  next
    assume "k = uniqueId src" "x = uniqueIdCounter st"
    then show ?thesis using cnt nc by simp
  next
    assume a: "convertionMap st k = Some x"
    from old[OF a] have "x < uniqueIdCounter st" "k \<in> T \<or> nodes st x \<noteq> None" by simp_all
    then show ?thesis using cnt nd[of x] by auto
  qed
  have B: "a = b" if la: "convertionMap st2 a = Some x" and lb: "convertionMap st2 b = Some x" for a b x
  proof -
    consider (t) j where "j < length (managedTargets src)" "mt_uniqueId (managedTargets src ! j) = a"
        "x = uniqueIdCounter st + 1 + j"
      | (s) "a = uniqueId src" "x = uniqueIdCounter st"
      | (o) "convertionMap st a = Some x"
      using lk[OF la] by blast
    then show ?thesis
    proof cases
      case t
      consider (t') j' where "j' < length (managedTargets src)" "mt_uniqueId (managedTargets src ! j') = b"
          "x = uniqueIdCounter st + 1 + j'"
        | (s') "b = uniqueId src" "x = uniqueIdCounter st"
        | (o') "convertionMap st b = Some x"
        using lk[OF lb] by blast
      then show ?thesis
      proof cases
        case t'
        with t show ?thesis by simp
      next
        case s'
        with t show ?thesis by simp
      next
        case o'
        from old[OF o'] t show ?thesis by simp
      qed
    next
      case s
      consider (t') j' where "j' < length (managedTargets src)" "mt_uniqueId (managedTargets src ! j') = b"
          "x = uniqueIdCounter st + 1 + j'"
        | (s') "b = uniqueId src" "x = uniqueIdCounter st"
        | (o') "convertionMap st b = Some x"
        using lk[OF lb] by blast
      then show ?thesis
      proof cases
        case t'
        with s show ?thesis by simp
      next
        case s'
        with s show ?thesis by simp
      next
        case o'
        from old[OF o'] s show ?thesis by simp
      qed
    next
      case o
      consider (t') j' where "j' < length (managedTargets src)" "mt_uniqueId (managedTargets src ! j') = b"
          "x = uniqueIdCounter st + 1 + j'"
        | (s') "b = uniqueId src" "x = uniqueIdCounter st"
        | (o') "convertionMap st b = Some x"
        using lk[OF lb] by blast
      then show ?thesis
      proof cases
        case t'
        from old[OF o] t' show ?thesis by simp
      next
        case s'
        from old[OF o] s' show ?thesis by simp
      next
        case o'
        from inj[OF o o'] show ?thesis .
      qed
    qed
  qed
  show ?thesis unfolding tablesInv_def using A B by blast
qed

lemma allRoots_tablesInv:
  assumes p1: "instantiateAllRoots c (initialPass sc) = Inr st2"
  shows "tablesInv (morphTargetIds c) st2"
proof -
  let ?T = "morphTargetIds c"
  let ?S = "{src. mt_uniqueId ` set (managedTargets src) \<subseteq> ?T}"
  let ?R = "\<lambda>a b. tablesInv ?T a \<longrightarrow> tablesInv ?T b"
  from p1 obtain st1 where 1: "instantiateRoots (transformNodes c) (initialPass sc) = Inr st1"
    and 2: "instantiateRoots (meshes c) st1 = Inr st2"
    by (auto simp: instantiateAllRoots_def split: sum.splits)
  have step: "?R st st2"
    if "src \<in> ?S" "cloneNode src np st = (cl, st1)" "onClone src cl st1 = Inr st2"
    for src np st cl st1 st2
  proof
    assume "tablesInv ?T st"
    moreover from that(1) have "mt_uniqueId ` set (managedTargets src) \<subseteq> ?T" by simp
    ultimately show "tablesInv ?T st2" using step_tablesInv[OF that(2,3)] by blast
  qed
  have push: "\<And>st r. ?R st (st\<lparr>result := (result st)\<lparr>rootNodes := rootNodes (result st) @ [r]\<rparr>\<rparr>)"
    by (simp add: tablesInv_def)
  have inS: "f \<in> ?S" if "n \<in> set (transformNodes c @ meshes c)" "f \<in> set (hierarchyNodes n)" for n f
  proof -
    have "mt_uniqueId ` set (managedTargets f) \<subseteq> ?T"
      unfolding morphTargetIds_def using that by blast
    then show ?thesis by simp
  qed
  have S1: "(\<Union>n\<in>set (transformNodes c). set (hierarchyNodes n)) \<subseteq> ?S"
  proof
    fix f assume "f \<in> (\<Union>n\<in>set (transformNodes c). set (hierarchyNodes n))"
    then obtain n where "n \<in> set (transformNodes c)" "f \<in> set (hierarchyNodes n)" by blast
    then show "f \<in> ?S" using inS[of n f] by simp
  qed
  have S2: "(\<Union>n\<in>set (meshes c). set (hierarchyNodes n)) \<subseteq> ?S"
  proof
    fix f assume "f \<in> (\<Union>n\<in>set (meshes c). set (hierarchyNodes n))"
    then obtain n where "n \<in> set (meshes c)" "f \<in> set (hierarchyNodes n)" by blast
    then show "f \<in> ?S" using inS[of n f] by simp
  qed
  have r1: "?R (initialPass sc) st1"
    by (rule roots_rel[where R = ?R and S = ?S, OF _ _ step push 1 S1]) simp_all
  have r2: "?R st1 st2"
    by (rule roots_rel[where R = ?R and S = ?S, OF _ _ step push 2 S2]) simp_all
  have "tablesInv ?T (initialPass sc)" by (simp add: tablesInv_def initialPass_def)
  with r1 r2 show ?thesis by blast
qed

lemma example_skeleton_ids:
  "case instantiateModelsToScene exampleContainer exampleScene of
     Inl e \<Rightarrow> False
   | Inr st \<Rightarrow> map sk_uniqueId (ie_skeletons (result st)) = [105]"
  by code_simp



subsection \<open>The animation groups of the result\<close>




subsection \<open>The translation table entry of a root\<close>

















subsection \<open>The walk of a hierarchy in the scene graph\<close>










lemma hierarchyOf_cycle:
  "hierarchyOf fuel cycleGraph (hd cycleGraph) = None \<and>
   hierarchyOf fuel cycleGraph (last cycleGraph) = None"
proof (induction fuel)
  case 0
  show ?case by simp
next
  case (Suc fuel)
  have k0: "getChildren cycleGraph (hd cycleGraph) = [last cycleGraph]"
    and k1: "getChildren cycleGraph (last cycleGraph) = [hd cycleGraph]"
    by (simp_all add: getChildren_def cycleGraph_def)
  from Suc show ?case by (simp add: k0 k1)
qed

subsection \<open>Evaluations on the concrete containers\<close>

lemma example_no_clone_of_clone:
  "case instantiateModelsToScene exampleContainer exampleScene of
     Inl e \<Rightarrow> False
   | Inr st \<Rightarrow> convertionMap st 100 = None"
  by code_simp

lemma override_captured: "boundMeshesCaptured overrideContainer"
  by (simp add: boundMeshesCaptured_def overrideContainer_def)

lemma override_ids: "7 \<notin> capturedIds overrideContainer" "2 \<in> capturedIds overrideContainer"
  by code_simp+

subsection \<open>The size of what a pass builds\<close>











lemma override_tables:
  "case instantiateModelsToScene overrideContainer exampleScene of
     Inl e \<Rightarrow> False
   | Inr st \<Rightarrow> convertionMap st 2 = Some 101"
  by code_simp
section \<open>Root nodes\<close>



section \<open>Morph targets\<close>

text \<open>
  Claim C2. Let \<open>onClone\<close> be called with a clone that is a mesh of the scene owning a
  morph-target manager, the manager of its source, whose targets have identifiers that
  the scene has already handed out. Then \<open>onClone\<close> returns, the clone owns a new manager
  with as many targets as the original manager, and at every index the new target has an
  identifier different from the original target's and is stored under its identifier in
  the clone store. The two tables are what the node pair followed by the pairs (original
  target, new target), in the order of the indices, make of the tables before the call,
  every pair being entered by the same two assignments; hence the translation table maps
  the identifier of an original target to the identifier of the new target at the same
  index (at the last index that holds that original target, should the manager hold it
  at several).
\<close>

theorem onClone_morphTargets:
  assumes "nodes st (uniqueId clone) = Some clone"
    and "isMesh clone" and "morphTargetManager clone \<noteq> None"
    and "morphTargetManager source = Some old"
    and "\<forall>t\<in>set (targets old). mt_uniqueId t < uniqueIdCounter st"
  shows "\<exists>st' new.
     onClone source clone st = Inr st' \<and>
     (\<exists>n'. nodes st' (uniqueId clone) = Some n' \<and> morphTargetManager n' = Some new) \<and>
     numTargets new = numTargets old \<and>
     (\<forall>i<numTargets old. \<exists>ot nt.
        getTarget old i = Some ot \<and> getTarget new i = Some nt \<and>
        mt_uniqueId nt \<noteq> mt_uniqueId ot \<and>
        storeMap st' (mt_uniqueId nt) = Some (mt_uniqueId nt) \<and>
        ((\<forall>j<numTargets old. i < j \<longrightarrow> mt_uniqueId (targets old ! j) \<noteq> mt_uniqueId ot) \<longrightarrow>
           convertionMap st' (mt_uniqueId ot) = Some (mt_uniqueId nt))) \<and>
     convertionMap st' =
       fold (\<lambda>(k, v) m. m(k \<mapsto> v))
         ((uniqueId source, uniqueId clone) #
            zip (map mt_uniqueId (targets old)) (map mt_uniqueId (targets new)))
         (convertionMap st) \<and>
     storeMap st' =
       fold (\<lambda>(k, v) m. m(v \<mapsto> v))
         ((uniqueId source, uniqueId clone) #
            zip (map mt_uniqueId (targets old)) (map mt_uniqueId (targets new)))
         (storeMap st)"
proof -
  let ?n = "length (targets old)"
  let ?st1 = "st\<lparr>convertionMap := (convertionMap st)(uniqueId source \<mapsto> uniqueId clone),
                  storeMap := (storeMap st)(uniqueId clone \<mapsto> uniqueId clone)\<rparr>"
  obtain new st2 where c: "MorphTargetManager_clone old ?st1 = (new, st2)"
    by (cases "MorphTargetManager_clone old ?st1")
  let ?st2 = "updateNode (uniqueId clone) (\<lambda>n. n\<lparr>morphTargetManager := Some new\<rparr>) st2"
  have len: "length (targets new) = ?n" by (rule MorphTargetManager_clone_length[OF c])
  note f2 = MorphTargetManager_clone_frame[OF c]
  obtain st' where r: "registerTargets old new [0..<numTargets old] ?st2 = Inr st'"
    using registerTargets_succeeds[of "[0..<numTargets old]" old new ?st2]
    by (auto simp: numTargets_def len)
  have run: "onClone source clone st = Inr st'"
    using assms(2,3,4) c r by (auto simp: onClone_def Let_def)
  have tnew: "targets new ! i = (targets old ! i)\<lparr>mt_uniqueId := uniqueIdCounter st + i\<rparr>"
    if "i < ?n" for i
    using MorphTargetManager_clone_targets[OF c that] by simp
  have n2: "nodes ?st2 (uniqueId clone) = Some (clone\<lparr>morphTargetManager := Some new\<rparr>)"
    using f2 assms(1) by (simp add: updateNode_nodes)
  have A: "\<exists>n'. nodes st' (uniqueId clone) = Some n' \<and> morphTargetManager n' = Some new"
    using registerTargets_frame[OF r] n2 by simp
  have B: "numTargets new = numTargets old" using len by (simp add: numTargets_def)
  have r': "registerTargets old new [0..<?n] ?st2 = Inr st'" using r by (simp add: numTargets_def)
  have C: "\<exists>ot nt.
        getTarget old i = Some ot \<and> getTarget new i = Some nt \<and>
        mt_uniqueId nt \<noteq> mt_uniqueId ot \<and>
        storeMap st' (mt_uniqueId nt) = Some (mt_uniqueId nt) \<and>
        ((\<forall>j<numTargets old. i < j \<longrightarrow> mt_uniqueId (targets old ! j) \<noteq> mt_uniqueId ot) \<longrightarrow>
           convertionMap st' (mt_uniqueId ot) = Some (mt_uniqueId nt))"
    if i: "i < numTargets old" for i
  proof -
    from i have i': "i < ?n" by (simp add: numTargets_def)
    let ?ot = "targets old ! i" and ?nt = "targets new ! i"
    have g1: "getTarget old i = Some ?ot" using i' by (simp add: getTarget_def)
    have g2: "getTarget new i = Some ?nt" using i' len by (simp add: getTarget_def)
    have "mt_uniqueId ?ot < uniqueIdCounter st" using assms(5) i' by simp
    moreover have idn: "mt_uniqueId ?nt = uniqueIdCounter st + i" using tnew[OF i'] by simp
    ultimately have ne: "mt_uniqueId ?nt \<noteq> mt_uniqueId ?ot" by simp
    have "mt_uniqueId ?nt \<in> (\<lambda>i. mt_uniqueId (targets new ! i)) ` set [0..<?n]" using i' by simp
    then have s: "storeMap st' (mt_uniqueId ?nt) = Some (mt_uniqueId ?nt)"
      using registerTargets_storeMap[OF r', of "mt_uniqueId ?nt"] by simp
    have l: "convertionMap st' (mt_uniqueId ?ot) = Some (mt_uniqueId ?nt)"
      if last: "\<forall>j<numTargets old. i < j \<longrightarrow> mt_uniqueId (targets old ! j) \<noteq> mt_uniqueId ?ot"
    proof -
      have "last (filter (\<lambda>j. mt_uniqueId (targets old ! j) = mt_uniqueId ?ot) [0..<?n]) = i"
        using i' last by (intro last_filter_upt) (simp_all add: numTargets_def)
      moreover have "mt_uniqueId ?ot \<in> (\<lambda>i. mt_uniqueId (targets old ! i)) ` set [0..<?n]"
        using i' by simp
      ultimately show ?thesis
        using registerTargets_convertionMap[OF r', of "mt_uniqueId ?ot"] by simp
    qed
    from g1 g2 ne s l show ?thesis by blast
  qed
  have t2: "convertionMap ?st2 = (convertionMap st)(uniqueId source \<mapsto> uniqueId clone)"
    "storeMap ?st2 = (storeMap st)(uniqueId clone \<mapsto> uniqueId clone)"
    using f2 by (simp_all add: updateNode_frame)
  have D: "convertionMap st' =
       fold (\<lambda>(k, v) m. m(k \<mapsto> v))
         ((uniqueId source, uniqueId clone) #
            zip (map mt_uniqueId (targets old)) (map mt_uniqueId (targets new)))
         (convertionMap st)"
    using registerTargets_fold_pairs(1)[OF r' len] t2 by simp
  have E: "storeMap st' =
       fold (\<lambda>(k, v) m. m(v \<mapsto> v))
         ((uniqueId source, uniqueId clone) #
            zip (map mt_uniqueId (targets old)) (map mt_uniqueId (targets new)))
         (storeMap st)"
    using registerTargets_fold_pairs(2)[OF r' len] t2 by simp
  have C': "\<forall>i<numTargets old. \<exists>ot nt.
        getTarget old i = Some ot \<and> getTarget new i = Some nt \<and>
        mt_uniqueId nt \<noteq> mt_uniqueId ot \<and>
        storeMap st' (mt_uniqueId nt) = Some (mt_uniqueId nt) \<and>
        ((\<forall>j<numTargets old. i < j \<longrightarrow> mt_uniqueId (targets old ! j) \<noteq> mt_uniqueId ot) \<longrightarrow>
           convertionMap st' (mt_uniqueId ot) = Some (mt_uniqueId nt))"
    using C by (intro allI impI)
  show ?thesis
    using run A B C' D E by (intro exI[of _ st'] exI[of _ new] conjI)
qed

theorem onClone_morphTargets_witness:
  "\<exists>st' new.
     onClone exampleMesh exampleMeshClone examplePass = Inr st' \<and>
     (\<exists>n'. nodes st' 100 = Some n' \<and> morphTargetManager n' = Some new) \<and>
     numTargets new = 2 \<and>
     map (convertionMap st') [2, 20, 21] = [Some 100, Some 101, Some 102]"
proof -
  have h1: "nodes examplePass (uniqueId exampleMeshClone) = Some exampleMeshClone"
    by (simp add: examplePass_def exampleMeshClone_def)
  have h2: "isMesh exampleMeshClone" "morphTargetManager exampleMeshClone \<noteq> None"
    "morphTargetManager exampleMesh = Some exampleManager"
    by (simp_all add: exampleMeshClone_def exampleMesh_def)
  have h3: "\<forall>t\<in>set (targets exampleManager). mt_uniqueId t < uniqueIdCounter examplePass"
    by (simp add: exampleManager_def examplePass_def)
  from onClone_morphTargets[OF h1 h2 h3]
  obtain st' new where r: "onClone exampleMesh exampleMeshClone examplePass = Inr st'"
    and n: "\<exists>n'. nodes st' (uniqueId exampleMeshClone) = Some n' \<and> morphTargetManager n' = Some new"
    and k: "numTargets new = numTargets exampleManager"
    by blast
  have "case onClone exampleMesh exampleMeshClone examplePass of
          Inl e \<Rightarrow> False
        | Inr st' \<Rightarrow> map (convertionMap st') [2, 20, 21] = [Some 100, Some 101, Some 102]"
    by code_simp
  with r have t: "map (convertionMap st') [2, 20, 21] = [Some 100, Some 101, Some 102]" by simp
  have u: "uniqueId exampleMeshClone = 100" by (simp add: exampleMeshClone_def)
  have k2: "numTargets new = 2" using k by (simp add: numTargets_def exampleManager_def)
  show ?thesis using r n[unfolded u] k2 t by (intro exI[of _ st'] exI[of _ new] conjI)
qed

section \<open>Animation groups\<close>



section \<open>Skeletons\<close>

text \<open>
  Claim C8. The pass does not clone every skeleton of the container whatever the meshes
  are bound to. In the container below the first skeleton is bound to a mesh that has a
  parent and is below no parentless entry of the container, so that the mesh has no
  clone; \<open>copy\<close> is \<open>undefined\<close>, the assignment \<open>copy.skeleton = clone\<close> throws while the
  first skeleton is processed, no result is returned and the second skeleton, to which no
  mesh is bound, is never reached. On the same container without the mesh the pass
  returns the clones of both skeletons.
\<close>

theorem skeletons_lost_on_throw:
  "map (\<lambda>m. (uniqueId (node m), parent (node m), skeleton (node m), isAnInstance (node m)))
       (meshes twoSkeletonsContainer) = [(2, Some 1, Some 10, False)] \<and>
   transformNodes twoSkeletonsContainer = [] \<and>
   map (\<lambda>s. (sk_uniqueId s, sk_name s)) (skeletons twoSkeletonsContainer) = [(10, ''rig''), (11, ''spare'')] \<and>
   (case instantiateModelsToScene twoSkeletonsContainer exampleScene of
      Inl e \<Rightarrow> e = TypeError
    | Inr st \<Rightarrow> False) \<and>
   (case instantiateModelsToScene (twoSkeletonsContainer\<lparr>meshes := []\<rparr>) exampleScene of
      Inl e \<Rightarrow> False
    | Inr st \<Rightarrow> map sk_name (ie_skeletons (result st)) = [''Clone of rig'', ''Clone of spare''])"
  by code_simp

text \<open>
  When the pass returns, the result holds one clone per skeleton of the container, in
  order: the name of the clone is \<open>Clone of\<close> followed by the name of the original, the
  clones are new, pairwise different objects, and each has as many bones as its original.
\<close>

lemma skeletons_all_cloned:
  assumes "instantiateModelsToScene c sc = Inr st"
  shows "map sk_name (ie_skeletons (result st)) = map (\<lambda>s. ''Clone of '' @ sk_name s) (skeletons c)
       \<and> distinct (map sk_uniqueId (ie_skeletons (result st)))
       \<and> (\<forall>i<length (skeletons c).
            sceneUniqueIdCounter sc \<le> sk_uniqueId (ie_skeletons (result st) ! i) \<and>
            length (bones (ie_skeletons (result st) ! i)) = length (bones (skeletons c ! i)))"
proof -
  obtain st2 where p1: "instantiateAllRoots c (initialPass sc) = Inr st2"
    and tabs: "convertionMap st = convertionMap st2" "storeMap st = storeMap st2"
    and sk: "ie_skeletons (result st) = expectedSkeletons c st (uniqueIdCounter st2) (skeletons c)"
    and sw: "alreadySwapped st = expectedSwapped c (uniqueIdCounter st2) (skeletons c)"
    and rn: "rootNodes (result st) = rootNodes (result st2)"
    and cnt: "uniqueIdCounter st = uniqueIdCounter st2 + length (skeletons c) + length (animationGroups c)"
    by (rule pass_skeletons[OF assms])
  have len: "length (ie_skeletons (result st)) = length (skeletons c)"
    using sk by (simp add: expectedSkeletons_length)
  have nth: "\<And>i. i < length (skeletons c) \<Longrightarrow>
      ie_skeletons (result st) ! i = expectedSkeleton c st (skeletons c ! i) (uniqueIdCounter st2 + i)"
    using sk by (simp add: expectedSkeletons_nth)
  have ge: "sceneUniqueIdCounter sc \<le> uniqueIdCounter st2"
    using allRoots_effect(2)[OF p1] by simp
  have A: "map sk_name (ie_skeletons (result st)) = map (\<lambda>s. ''Clone of '' @ sk_name s) (skeletons c)"
    by (rule nth_equalityI) (simp_all add: len nth expectedSkeleton_def)
  have ids: "map sk_uniqueId (ie_skeletons (result st)) = map (\<lambda>i. uniqueIdCounter st2 + i) [0..<length (skeletons c)]"
    by (rule nth_equalityI) (simp_all add: len nth expectedSkeleton_def)
  have B: "distinct (map sk_uniqueId (ie_skeletons (result st)))"
    unfolding ids by (simp add: distinct_map inj_on_def)
  have C: "\<forall>i<length (skeletons c).
            sceneUniqueIdCounter sc \<le> sk_uniqueId (ie_skeletons (result st) ! i) \<and>
            length (bones (ie_skeletons (result st) ! i)) = length (bones (skeletons c ! i))"
    using ge by (simp add: nth expectedSkeleton_def)
  from A B C show ?thesis by blast
qed

text \<open>
  Claim C7, as stated, fails: the clone of a skeleton to which no mesh of the container
  is bound is never entered in \<open>alreadySwapped\<close>, and its bones are not rewritten at all
  (the link of its bone to the node 1, which has no clone, is still there).
\<close>

theorem boneRewrite_not_exactly_once:
  "case instantiateModelsToScene unboundContainer exampleScene of
     Inl e \<Rightarrow> False
   | Inr st \<Rightarrow>
       map sk_uniqueId (ie_skeletons (result st)) = [100] \<and> alreadySwapped st = [] \<and>
       convertionMap st 1 = None \<and>
       map (map linkedTransformNode \<circ> bones) (ie_skeletons (result st)) = [[Some 1]]"
  by code_simp

text \<open>
  Claim C7, amended. When every mesh of the container that is bound to one of its
  skeletons (and is not an instance) has a clone, the pass returns, and the bones of a
  cloned skeleton have been rewritten at most once: exactly once when at least one mesh of
  the container that is not an instance is bound to the original skeleton, however many
  such meshes there are, and never otherwise. The clone is pushed on \<open>alreadySwapped\<close>
  that many times, and its bones are the bones of the original after that many runs of
  the loop over the bones; a second run would look up the clones themselves, which the
  translation table does not hold.
\<close>

theorem boneRewrite_at_most_once:
  assumes "boundMeshesCaptured c"
  shows "\<exists>st. instantiateModelsToScene c sc = Inr st \<and>
       distinct (alreadySwapped st) \<and>
       (\<forall>i<length (skeletons c).
          count_list (alreadySwapped st) (sk_uniqueId (ie_skeletons (result st) ! i)) =
            (if \<exists>m\<in>set (meshes c). skeleton (node m) = Some (sk_uniqueId (skeletons c ! i)) \<and>
                                     \<not> isAnInstance (node m)
             then 1 else 0) \<and>
          bones (ie_skeletons (result st) ! i) =
            (map (relinkBone st) ^^
               (if \<exists>m\<in>set (meshes c). skeleton (node m) = Some (sk_uniqueId (skeletons c ! i)) \<and>
                                        \<not> isAnInstance (node m)
                then 1 else 0))
              (bones (skeletons c ! i)))"
proof -
  from assms obtain st where run: "instantiateModelsToScene c sc = Inr st"
    using pass_succeeds_iff by blast
  obtain st2 where p1: "instantiateAllRoots c (initialPass sc) = Inr st2"
    and tabs: "convertionMap st = convertionMap st2" "storeMap st = storeMap st2"
    and sk: "ie_skeletons (result st) = expectedSkeletons c st (uniqueIdCounter st2) (skeletons c)"
    and sw: "alreadySwapped st = expectedSwapped c (uniqueIdCounter st2) (skeletons c)"
    and rn: "rootNodes (result st) = rootNodes (result st2)"
    and cnt: "uniqueIdCounter st = uniqueIdCounter st2 + length (skeletons c) + length (animationGroups c)"
    by (rule pass_skeletons[OF run])
  have A: "distinct (alreadySwapped st)" unfolding sw by (rule expectedSwapped_distinct)
  have B: "count_list (alreadySwapped st) (sk_uniqueId (ie_skeletons (result st) ! i)) =
            (if \<exists>m\<in>set (meshes c). skeleton (node m) = Some (sk_uniqueId (skeletons c ! i)) \<and>
                                     \<not> isAnInstance (node m)
             then 1 else 0) \<and>
          bones (ie_skeletons (result st) ! i) =
            (map (relinkBone st) ^^
               (if \<exists>m\<in>set (meshes c). skeleton (node m) = Some (sk_uniqueId (skeletons c ! i)) \<and>
                                        \<not> isAnInstance (node m)
                then 1 else 0))
              (bones (skeletons c ! i))" if i: "i < length (skeletons c)" for i
  proof -
    have id: "sk_uniqueId (ie_skeletons (result st) ! i) = uniqueIdCounter st2 + i"
      using sk i by (simp add: expectedSkeletons_nth expectedSkeleton_def)
    have n: "count_list (alreadySwapped st) (sk_uniqueId (ie_skeletons (result st) ! i)) =
               (if hasBoundMesh c (skeletons c ! i) then 1 else 0)"
      unfolding sw id by (rule expectedSwapped_count[OF i])
    have b: "bones (ie_skeletons (result st) ! i) =
               (map (relinkBone st) ^^ (if hasBoundMesh c (skeletons c ! i) then 1 else 0))
                 (bones (skeletons c ! i))"
      using pass_skeleton_nth(2)[OF run i] by simp
    from n b show ?thesis by (simp only: hasBoundMesh_unfold)
  qed
  from run A B show ?thesis by blast
qed

theorem boneRewrite_at_most_once_witness:
  "\<exists>st. instantiateModelsToScene exampleContainer exampleScene = Inr st
       \<and> length (filter (\<lambda>m. skeleton (node m) = Some 10 \<and> \<not> isAnInstance (node m)) (meshes exampleContainer)) = 2
       \<and> count_list (alreadySwapped st) (sk_uniqueId (ie_skeletons (result st) ! 0)) = 1
       \<and> map linkedTransformNode (bones (skeletons exampleContainer ! 0)) = [Some 1, Some 99, None]
       \<and> map linkedTransformNode (bones (ie_skeletons (result st) ! 0)) = [Some 100, None, None]
       \<and> map linkedTransformNode ((map (relinkBone st) ^^ 2) (bones (skeletons exampleContainer ! 0)))
            = [None, None, None]"
proof -
  from boneRewrite_at_most_once[OF example_captured, of exampleScene]
  obtain st where run: "instantiateModelsToScene exampleContainer exampleScene = Inr st"
    and per: "\<forall>i<length (skeletons exampleContainer).
          count_list (alreadySwapped st) (sk_uniqueId (ie_skeletons (result st) ! i)) =
            (if \<exists>m\<in>set (meshes exampleContainer).
                   skeleton (node m) = Some (sk_uniqueId (skeletons exampleContainer ! i)) \<and>
                   \<not> isAnInstance (node m)
             then 1 else 0) \<and>
          bones (ie_skeletons (result st) ! i) =
            (map (relinkBone st) ^^
               (if \<exists>m\<in>set (meshes exampleContainer).
                      skeleton (node m) = Some (sk_uniqueId (skeletons exampleContainer ! i)) \<and>
                      \<not> isAnInstance (node m)
                then 1 else 0))
              (bones (skeletons exampleContainer ! i))"
    by blast
  have two: "length (filter (\<lambda>m. skeleton (node m) = Some 10 \<and> \<not> isAnInstance (node m)) (meshes exampleContainer)) = 2"
    by (simp add: exampleContainer_def exampleRoot_def)
  have b: "\<exists>m\<in>set (meshes exampleContainer). skeleton (node m) = Some (sk_uniqueId (skeletons exampleContainer ! 0)) \<and>
                                       \<not> isAnInstance (node m)"
    by (simp add: exampleContainer_def exampleRoot_def exampleSkeleton_def)
  have l: "0 < length (skeletons exampleContainer)" by (simp add: exampleContainer_def)
  from per[rule_format, OF l] b
  have once: "count_list (alreadySwapped st) (sk_uniqueId (ie_skeletons (result st) ! 0)) = 1"
    and bs: "bones (ie_skeletons (result st) ! 0) = map (relinkBone st) (bones (skeletons exampleContainer ! 0))"
    by (simp_all del: count_list.simps)
  note ok = pass_tables(1)[OF run]
  from example_tables run have t: "convertionMap st 1 = Some 100" "convertionMap st 99 = None" by simp_all
  from example_no_clone_of_clone run have t': "convertionMap st 100 = None" by simp
  have lk: "lookupClone st (Suc 0) = Some 100" "lookupClone st 99 = None" "lookupClone st 100 = None"
    using t t' by (simp_all add: lookupClone_tablesOK[OF ok])
  have orig: "map linkedTransformNode (bones (skeletons exampleContainer ! 0)) = [Some 1, Some 99, None]"
    by (simp add: exampleContainer_def exampleSkeleton_def)
  have r1: "map linkedTransformNode (bones (ie_skeletons (result st) ! 0)) = [Some 100, None, None]"
    unfolding bs by (simp add: exampleContainer_def exampleSkeleton_def relinkBone_def lk)
  have r2: "map linkedTransformNode ((map (relinkBone st) ^^ 2) (bones (skeletons exampleContainer ! 0)))
            = [None, None, None]"
    by (simp add: numeral_2_eq_2 exampleContainer_def exampleSkeleton_def relinkBone_def lk)
  show ?thesis using run two once orig r1 r2 by (intro exI[of _ st] conjI)
qed

text \<open>
  Claim C4, as stated, fails: the rewrite of a bone link assigns the result of the lookup,
  and on a miss that result is \<open>undefined\<close>. In the example container the bone \<open>hand\<close> is
  linked to the node 99, which is not cloned; after the pass its clone is linked to no
  node, not to the node 99.
\<close>

theorem boneLink_miss_unsets_link:
  "linkedTransformNode (bones exampleSkeleton ! 1) = Some 99 \<and>
   (case instantiateModelsToScene exampleContainer exampleScene of
      Inl e \<Rightarrow> False
    | Inr st \<Rightarrow> convertionMap st 99 = None \<and>
                map (map linkedTransformNode \<circ> bones) (ie_skeletons (result st)) = [[Some 100, None, None]])"
  by code_simp

text \<open>
  Claim C4, amended. When every mesh of the container that is bound to one of its
  skeletons (and is not an instance) belongs to the hierarchy of a parentless entry, the
  pass returns, with no error. A cloned skeleton has the bones of its original. For a
  bone of the original that is linked to a transform node: when at least one mesh of the
  container that is not an instance is bound to the original skeleton, the bone of the
  clone is linked to what the translation table holds for that node, which is the node's
  clone when the node has an entry and nothing when it has none; when no such mesh is
  bound, the links are not rewritten and the bone of the clone is linked to the original
  node.
\<close>

theorem boneLinks_rewritten:
  assumes "boundMeshesCaptured c"
  shows "\<exists>st. instantiateModelsToScene c sc = Inr st \<and>
     (\<forall>i<length (skeletons c).
        length (bones (ie_skeletons (result st) ! i)) = length (bones (skeletons c ! i)) \<and>
        (\<forall>j<length (bones (skeletons c ! i)). \<forall>n.
           linkedTransformNode (bones (skeletons c ! i) ! j) = Some n \<longrightarrow>
           linkedTransformNode (bones (ie_skeletons (result st) ! i) ! j) =
             (if \<exists>m\<in>set (meshes c). skeleton (node m) = Some (sk_uniqueId (skeletons c ! i)) \<and>
                                      \<not> isAnInstance (node m)
              then convertionMap st n else Some n)))"
proof -
  from assms obtain st where r: "instantiateModelsToScene c sc = Inr st"
    using pass_succeeds_iff by blast
  note ok = pass_tables(1)[OF r]
  have "length (bones (ie_skeletons (result st) ! i)) = length (bones (skeletons c ! i)) \<and>
        (\<forall>j<length (bones (skeletons c ! i)). \<forall>n.
           linkedTransformNode (bones (skeletons c ! i) ! j) = Some n \<longrightarrow>
           linkedTransformNode (bones (ie_skeletons (result st) ! i) ! j) =
             (if \<exists>m\<in>set (meshes c). skeleton (node m) = Some (sk_uniqueId (skeletons c ! i)) \<and>
                                      \<not> isAnInstance (node m)
              then convertionMap st n else Some n))"
    if i: "i < length (skeletons c)" for i
  proof (cases "hasBoundMesh c (skeletons c ! i)")
    case True
    then have b: "bones (ie_skeletons (result st) ! i) = map (relinkBone st) (bones (skeletons c ! i))"
      using pass_skeleton_nth(2)[OF r i] by simp
    have yes: "\<exists>m\<in>set (meshes c). skeleton (node m) = Some (sk_uniqueId (skeletons c ! i)) \<and>
                                      \<not> isAnInstance (node m)"
      using True unfolding hasBoundMesh_unfold .
    show ?thesis
      unfolding b by (simp only: yes if_True) (simp add: relinkBone_def lookupClone_tablesOK[OF ok])
  next
    case False
    then have b: "bones (ie_skeletons (result st) ! i) = bones (skeletons c ! i)"
      using pass_skeleton_nth(2)[OF r i] by simp
    have no: "\<not> (\<exists>m\<in>set (meshes c). skeleton (node m) = Some (sk_uniqueId (skeletons c ! i)) \<and>
                                      \<not> isAnInstance (node m))"
      using False unfolding hasBoundMesh_unfold .
    show ?thesis
      unfolding b by (simp only: no if_False) simp
  qed
  with r show ?thesis by blast
qed

theorem boneLinks_rewritten_witness:
  "\<exists>st. instantiateModelsToScene exampleContainer exampleScene = Inr st \<and>
        linkedTransformNode (bones (skeletons exampleContainer ! 0) ! 1) = Some 99 \<and>
        convertionMap st 99 = None \<and>
        linkedTransformNode (bones (ie_skeletons (result st) ! 0) ! 1) = None"
proof -
  from boneLinks_rewritten[OF example_captured, of exampleScene]
  obtain st where r: "instantiateModelsToScene exampleContainer exampleScene = Inr st"
    and b: "\<forall>i<length (skeletons exampleContainer).
        length (bones (ie_skeletons (result st) ! i)) = length (bones (skeletons exampleContainer ! i)) \<and>
        (\<forall>j<length (bones (skeletons exampleContainer ! i)). \<forall>n.
           linkedTransformNode (bones (skeletons exampleContainer ! i) ! j) = Some n \<longrightarrow>
           linkedTransformNode (bones (ie_skeletons (result st) ! i) ! j) =
             (if \<exists>m\<in>set (meshes exampleContainer). skeleton (node m) = Some (sk_uniqueId (skeletons exampleContainer ! i)) \<and>
                                      \<not> isAnInstance (node m)
              then convertionMap st n else Some n))"
    by blast
  have l: "linkedTransformNode (bones (skeletons exampleContainer ! 0) ! 1) = Some 99"
    by (simp add: exampleContainer_def exampleSkeleton_def)
  have i: "0 < length (skeletons exampleContainer)" "1 < length (bones (skeletons exampleContainer ! 0))"
    by (simp_all add: exampleContainer_def exampleSkeleton_def)
  have bound: "\<exists>m\<in>set (meshes exampleContainer). skeleton (node m) = Some (sk_uniqueId (skeletons exampleContainer ! 0)) \<and>
                                      \<not> isAnInstance (node m)"
    by (simp add: exampleContainer_def exampleRoot_def exampleSkeleton_def)
  from b i l bound have "linkedTransformNode (bones (ie_skeletons (result st) ! 0) ! 1) = convertionMap st 99"
    by simp
  moreover from example_tables r have "convertionMap st 99 = None" by simp
  ultimately show ?thesis using r l by simp
qed

text \<open>
  Claim C5, as stated, fails: whether the override mesh is resolved does not follow the
  lists of the container. The override mesh of the first skeleton below is listed in
  \<open>meshes\<close>, but it has a parent and is below no parentless entry, so that it has no clone
  and the override mesh of the cloned skeleton is unset; the override mesh of the second
  skeleton is in no list of the container, but it is a child of a listed parentless
  transform node, and the cloned skeleton gets its clone.
\<close>

theorem overrideMesh_not_by_listing:
  "map (\<lambda>m. uniqueId (node m)) (meshes overrideContainer) = [7] \<and>
   map overrideMesh (skeletons overrideContainer) = [Some 7, Some 2] \<and>
   (case instantiateModelsToScene overrideContainer exampleScene of
      Inl e \<Rightarrow> False
    | Inr st \<Rightarrow> map (convertionMap st) [7, 2] = [None, Some 101] \<and>
                map overrideMesh (ie_skeletons (result st)) = [None, Some 101])"
  by code_simp

text \<open>
  Claim C5, amended. When every mesh of the container that is bound to one of its
  skeletons (and is not an instance) has a clone, the pass returns, with no exception,
  and for every skeleton that declares an override mesh: when the identifier of that mesh
  was captured (it belongs to the hierarchy of a parentless entry of the container), the
  override mesh of the cloned skeleton is the clone that the translation table and the
  clone store hold for it; when it was not captured, the override mesh of the cloned
  skeleton is unset.
\<close>

theorem overrideMesh_resolved:
  assumes "boundMeshesCaptured c"
  shows "\<exists>st. instantiateModelsToScene c sc = Inr st \<and>
     length (ie_skeletons (result st)) = length (skeletons c) \<and>
     (\<forall>i<length (skeletons c). \<forall>om. overrideMesh (skeletons c ! i) = Some om \<longrightarrow>
        (om \<in> capturedIds c \<longrightarrow>
           (\<exists>cl. convertionMap st om = Some cl \<and> storeMap st cl = Some cl \<and>
                 overrideMesh (ie_skeletons (result st) ! i) = Some cl)) \<and>
        (om \<notin> capturedIds c \<longrightarrow> overrideMesh (ie_skeletons (result st) ! i) = None))"
proof -
  from assms obtain st where r: "instantiateModelsToScene c sc = Inr st"
    using pass_succeeds_iff by blast
  note ok = pass_tables(1)[OF r]
  note d = pass_tables(2)[OF r]
  have len: "length (ie_skeletons (result st)) = length (skeletons c)"
    using pass_skeletons_length[OF r] .
  have "(om \<in> capturedIds c \<longrightarrow>
           (\<exists>cl. convertionMap st om = Some cl \<and> storeMap st cl = Some cl \<and>
                 overrideMesh (ie_skeletons (result st) ! i) = Some cl)) \<and>
        (om \<notin> capturedIds c \<longrightarrow> overrideMesh (ie_skeletons (result st) ! i) = None)"
    if i: "i < length (skeletons c)" and om: "overrideMesh (skeletons c ! i) = Some om" for i om
  proof -
    have o: "overrideMesh (ie_skeletons (result st) ! i) = convertionMap st om"
      using pass_skeleton_nth(1)[OF r i] om by simp
    show ?thesis
    proof (cases "convertionMap st om")
      case None
      then have "om \<notin> dom (convertionMap st)" by (simp add: domIff)
      then have "om \<notin> capturedIds c" unfolding d .
      with None o show ?thesis by simp
    next
      case (Some cl)
      then have "om \<in> dom (convertionMap st)" by (simp add: domIff)
      then have "om \<in> capturedIds c" unfolding d .
      moreover from Some ok have "storeMap st cl = Some cl" by (simp add: tablesOK_def)
      ultimately show ?thesis using Some o by simp
    qed
  qed
  with r len show ?thesis by blast
qed

theorem overrideMesh_resolved_witness:
  "\<exists>st. instantiateModelsToScene overrideContainer exampleScene = Inr st \<and>
        map overrideMesh (skeletons overrideContainer) = [Some 7, Some 2] \<and>
        (7 \<in> capturedIds overrideContainer) = False \<and> 2 \<in> capturedIds overrideContainer \<and>
        overrideMesh (ie_skeletons (result st) ! 0) = None \<and>
        convertionMap st 2 = Some 101 \<and>
        overrideMesh (ie_skeletons (result st) ! 1) = Some 101"
proof -
  from overrideMesh_resolved[OF override_captured, of exampleScene]
  obtain st where r: "instantiateModelsToScene overrideContainer exampleScene = Inr st"
    and b: "\<forall>i<length (skeletons overrideContainer). \<forall>om. overrideMesh (skeletons overrideContainer ! i) = Some om \<longrightarrow>
        (om \<in> capturedIds overrideContainer \<longrightarrow>
           (\<exists>cl. convertionMap st om = Some cl \<and> storeMap st cl = Some cl \<and>
                 overrideMesh (ie_skeletons (result st) ! i) = Some cl)) \<and>
        (om \<notin> capturedIds overrideContainer \<longrightarrow> overrideMesh (ie_skeletons (result st) ! i) = None)"
    by blast
  have o: "map overrideMesh (skeletons overrideContainer) = [Some 7, Some 2]"
    by (simp add: overrideContainer_def)
  have o0: "overrideMesh (skeletons overrideContainer ! 0) = Some 7"
    and o1: "overrideMesh (skeletons overrideContainer ! 1) = Some 2"
    by (simp_all add: overrideContainer_def)
  have i: "0 < length (skeletons overrideContainer)" "1 < length (skeletons overrideContainer)"
    by (simp_all add: overrideContainer_def)
  note out = override_ids(1) and inn = override_ids(2)
  from b[rule_format, OF i(1) o0] out
  have n: "overrideMesh (ie_skeletons (result st) ! 0) = None" by blast
  from override_tables r have t: "convertionMap st 2 = Some 101" by simp
  from b[rule_format, OF i(2) o1] inn obtain cl where "convertionMap st 2 = Some cl"
    "overrideMesh (ie_skeletons (result st) ! 1) = Some cl" by blast
  with t have s: "overrideMesh (ie_skeletons (result st) ! 1) = Some 101" by simp
  from out have out': "(7 \<in> capturedIds overrideContainer) = False" by simp
  show ?thesis using r o out' inn n t s by (intro exI[of _ st] conjI)
qed

text \<open>
  Claim C6. The pass does not rebind the clone of every bound mesh. A mesh of the
  container that has a parent and is below no parentless entry of the container is never
  cloned; when such a mesh is bound to a skeleton of the container, \<open>copy\<close> is \<open>undefined\<close>
  and the assignment \<open>copy.skeleton = clone\<close> throws instead of being skipped. Here the
  container holds the two meshes of the example without their root.
\<close>

theorem boundMesh_without_clone_throws:
  "map (\<lambda>m. (uniqueId (node m), parent (node m), skeleton (node m), isAnInstance (node m)))
       (meshes orphanContainer) = [(2, Some 1, Some 10, False), (3, Some 1, Some 10, False)] \<and>
   map sk_uniqueId (skeletons orphanContainer) = [10] \<and>
   (case instantiateModelsToScene orphanContainer exampleScene of
      Inl e \<Rightarrow> e = TypeError
    | Inr st \<Rightarrow> False)"
  by code_simp

text \<open>
  For a mesh that has a clone the assignment does what it is meant to do. Let the pass
  return, and let a mesh of the container that is not an instance be bound to a skeleton
  of the container, identifiers naming entities: the meshes of the container with the
  identifier of this mesh are bound as it is, its identifier is not that of a morph
  target, and the identifier of the skeleton was handed out before the pass. Then the
  skeleton reference of the clone of the mesh is a clone of the skeleton, not the
  original skeleton.
\<close>

lemma boundMesh_rebound:
  assumes run: "instantiateModelsToScene c sc = Inr st"
    and i: "i < length (skeletons c)" and m: "m \<in> set (meshes c)"
    and bound: "skeleton (node m) = Some (sk_uniqueId (skeletons c ! i))" "\<not> isAnInstance (node m)"
    and U: "\<forall>m'\<in>set (meshes c). uniqueId (node m') = uniqueId (node m) \<longrightarrow>
              skeleton (node m') = skeleton (node m)"
    and V: "uniqueId (node m) \<notin> morphTargetIds c"
    and F: "sk_uniqueId (skeletons c ! i) < sceneUniqueIdCounter sc"
  shows "\<exists>copy n k.
           convertionMap st (uniqueId (node m)) = Some copy \<and> storeMap st copy = Some copy \<and>
           nodes st copy = Some n \<and>
           k < length (skeletons c) \<and>
           sk_uniqueId (skeletons c ! k) = sk_uniqueId (skeletons c ! i) \<and>
           skeleton n = Some (sk_uniqueId (ie_skeletons (result st) ! k)) \<and>
           sk_name (ie_skeletons (result st) ! k) = ''Clone of '' @ sk_name (skeletons c ! k) \<and>
           sk_uniqueId (ie_skeletons (result st) ! k) \<noteq> sk_uniqueId (skeletons c ! i)"
proof -
  obtain st2 where p1: "instantiateAllRoots c (initialPass sc) = Inr st2"
    and tabs: "convertionMap st = convertionMap st2" "storeMap st = storeMap st2"
    and sk: "ie_skeletons (result st) = expectedSkeletons c st (uniqueIdCounter st2) (skeletons c)"
    and sw: "alreadySwapped st = expectedSwapped c (uniqueIdCounter st2) (skeletons c)"
    and rn: "rootNodes (result st) = rootNodes (result st2)"
    and cnt: "uniqueIdCounter st = uniqueIdCounter st2 + length (skeletons c) + length (animationGroups c)"
    by (rule pass_skeletons[OF run])
  note r = allRoots_effect[OF p1]
  note inv = allRoots_tablesInv[OF p1]
  let ?s = "skeletons c ! i"
  have bt: "boundTo ?s m" using bound by (simp add: boundTo_def)
  have "boundMeshesCaptured c" using pass_succeeds_iff run by blast
  with i m bound have cap: "uniqueId (node m) \<in> capturedIds c"
    unfolding boundMeshesCaptured_def using nth_mem[OF i] by blast
  then have "uniqueId (node m) \<in> dom (convertionMap st2)" using r(3) by simp
  then obtain copy where cv: "convertionMap st2 (uniqueId (node m)) = Some copy" by (auto simp: dom_def)
  from r(5) cv have stc: "storeMap st2 copy = Some copy" by (simp add: tablesOK_def)
  have lk: "lookupClone st2 (uniqueId (node m)) = Some copy" using cv stc by (simp add: lookupClone_def)
  from inv cv V obtain n0 where n0: "nodes st2 copy = Some n0"
    unfolding tablesInv_def by blast
  have inB: "copy \<in> boundCopies st2 ?s (meshes c)"
    unfolding boundCopies_def using m bt lk by blast
  note pn = pass_nodes[OF run p1, of copy, THEN conjunct2, rule_format, OF n0]
  from pn obtain sk' where sk0: "nodes st copy = Some (n0\<lparr>skeleton := sk'\<rparr>) \<and>
       ((\<exists>k<length (skeletons c). copy \<in> boundCopies st2 (skeletons c ! k) (meshes c)) \<longrightarrow>
        (\<exists>k<length (skeletons c). copy \<in> boundCopies st2 (skeletons c ! k) (meshes c) \<and>
               sk' = Some (uniqueIdCounter st2 + k))) \<and>
       ((\<forall>k<length (skeletons c). copy \<notin> boundCopies st2 (skeletons c ! k) (meshes c)) \<longrightarrow>
          sk' = skeleton n0)" ..
  have "\<exists>k<length (skeletons c). copy \<in> boundCopies st2 (skeletons c ! k) (meshes c)"
    using i inB by blast
  with sk0 obtain k where k: "k < length (skeletons c)"
    and kB: "copy \<in> boundCopies st2 (skeletons c ! k) (meshes c)"
    and sk': "sk' = Some (uniqueIdCounter st2 + k)"
    by blast
  from kB obtain m' where m': "m' \<in> set (meshes c)" "boundTo (skeletons c ! k) m'"
    "lookupClone st2 (uniqueId (node m')) = Some copy"
    unfolding boundCopies_def by blast
  from m'(3) obtain copy' where c': "convertionMap st2 (uniqueId (node m')) = Some copy'"
    "storeMap st2 copy' = Some copy"
    by (auto simp: lookupClone_def split: option.splits)
  from r(5) c'(1) have "storeMap st2 copy' = Some copy'" by (simp add: tablesOK_def)
  with c'(2) have "copy' = copy" by simp
  with c'(1) have c'': "convertionMap st2 (uniqueId (node m')) = Some copy" by simp
  from inv c'' cv have same: "uniqueId (node m') = uniqueId (node m)"
    unfolding tablesInv_def by blast
  with U m'(1) have "skeleton (node m') = skeleton (node m)" by blast
  with m'(2) bound(1) have ids: "sk_uniqueId (skeletons c ! k) = sk_uniqueId ?s"
    by (simp add: boundTo_def)
  have nth: "ie_skeletons (result st) ! k = expectedSkeleton c st (skeletons c ! k) (uniqueIdCounter st2 + k)"
    using sk k by (simp add: expectedSkeletons_nth)
  have idk: "sk_uniqueId (ie_skeletons (result st) ! k) = uniqueIdCounter st2 + k"
    and nmk: "sk_name (ie_skeletons (result st) ! k) = ''Clone of '' @ sk_name (skeletons c ! k)"
    unfolding nth by (simp_all add: expectedSkeleton_def)
  have ge: "sceneUniqueIdCounter sc \<le> uniqueIdCounter st2" using r(2) by simp
  have ne: "sk_uniqueId (ie_skeletons (result st) ! k) \<noteq> sk_uniqueId ?s"
    using idk ge F by simp
  have X1: "convertionMap st (uniqueId (node m)) = Some copy" using cv tabs by simp
  have X2: "storeMap st copy = Some copy" using stc tabs by simp
  have X3: "nodes st copy = Some (n0\<lparr>skeleton := sk'\<rparr>)" using sk0 by simp
  have X4: "skeleton (n0\<lparr>skeleton := sk'\<rparr>) = Some (sk_uniqueId (ie_skeletons (result st) ! k))"
    using sk' idk by simp
  show ?thesis
    using X1 X2 X3 k ids X4 nmk ne
    by (intro exI[of _ copy] exI[of _ "n0\<lparr>skeleton := sk'\<rparr>"] exI[of _ k] conjI)
qed

section \<open>The pass as a whole\<close>



end
